theory Spec2Isabelle
  imports Complex_Main
begin

section \<open>Circuit breaker\<close>

text \<open>
  \<^verbatim>\<open>lib/utils/communication.py\<close>, class \<^verbatim>\<open>CircuitBreaker\<close>. The dictionary
  \<^verbatim>\<open>_circuits\<close> maps an agent name to the tuple
  \<^verbatim>\<open>(state, failure_count, last_failure_time, half_open_attempts)\<close>. Every reading of
  \<^verbatim>\<open>time.time()\<close> is the parameter \<open>now\<close>; clock values are real numbers.
\<close>

datatype cstate = CLOSED | OPEN | HALF_OPEN

type_synonym circuit = "cstate \<times> nat \<times> real \<times> nat"
type_synonym circuits = "string \<rightharpoonup> circuit"

definition CIRCUIT_FAILURE_THRESHOLD :: nat where
  "CIRCUIT_FAILURE_THRESHOLD = 3"

definition CIRCUIT_RESET_TIMEOUT :: real where
  "CIRCUIT_RESET_TIMEOUT = 60"

definition CIRCUIT_HALF_OPEN_MAX :: nat where
  "CIRCUIT_HALF_OPEN_MAX = 1"

definition get_state :: "real \<Rightarrow> string \<Rightarrow> circuits \<Rightarrow> cstate \<times> circuits" where
  "get_state now agent_name cs =
     (case cs agent_name of
        None \<Rightarrow> (CLOSED, cs)
      | Some (state, failures, last_failure, _) \<Rightarrow>
          if state = OPEN \<and> now - last_failure > CIRCUIT_RESET_TIMEOUT
          then (HALF_OPEN, cs(agent_name \<mapsto> (HALF_OPEN, failures, last_failure, 0)))
          else (state, cs))"

definition record_success :: "string \<Rightarrow> circuits \<Rightarrow> circuits" where
  "record_success agent_name cs = cs(agent_name \<mapsto> (CLOSED, 0, 0, 0))"

definition record_failure :: "real \<Rightarrow> string \<Rightarrow> circuits \<Rightarrow> circuits" where
  "record_failure now agent_name cs =
     (case cs agent_name of
        None \<Rightarrow> cs(agent_name \<mapsto> (CLOSED, 1, now, 0))
      | Some (state, failures, _, half_open_attempts) \<Rightarrow>
          (let new_failures = failures + 1 in
           if state = HALF_OPEN then cs(agent_name \<mapsto> (OPEN, new_failures, now, 0))
           else if new_failures \<ge> CIRCUIT_FAILURE_THRESHOLD
             then cs(agent_name \<mapsto> (OPEN, new_failures, now, 0))
           else cs(agent_name \<mapsto> (CLOSED, new_failures, now, 0))))"

text \<open>
  In the half-open branch the source indexes \<^verbatim>\<open>_circuits[agent_name]\<close>; the key is
  present there because \<^verbatim>\<open>get_state\<close> answers \<^verbatim>\<open>HALF_OPEN\<close> only for a stored circuit
  (lemma \<open>get_state_half_open_stored\<close>), so the \<open>None\<close> case below is never taken.
\<close>

definition allow_request :: "real \<Rightarrow> string \<Rightarrow> circuits \<Rightarrow> bool \<times> circuits" where
  "allow_request now agent_name cs =
     (case get_state now agent_name cs of (state, cs1) \<Rightarrow>
        if state = CLOSED then (True, cs1)
        else if state = OPEN then (False, cs1)
        else (case cs1 agent_name of
                None \<Rightarrow> (False, cs1)
              | Some (_, failures, last_failure, attempts) \<Rightarrow>
                  if attempts < CIRCUIT_HALF_OPEN_MAX
                  then (True, cs1(agent_name \<mapsto> (HALF_OPEN, failures, last_failure, attempts + 1)))
                  else (False, cs1)))"

text \<open>The state a destination is in, as stored (\<^verbatim>\<open>CLOSED\<close> when it has no entry).\<close>

definition stored_state :: "circuits \<Rightarrow> string \<Rightarrow> cstate" where
  "stored_state cs agent_name = (case cs agent_name of None \<Rightarrow> CLOSED | Some c \<Rightarrow> fst c)"

definition failure_count :: "circuits \<Rightarrow> string \<Rightarrow> nat" where
  "failure_count cs agent_name = (case cs agent_name of None \<Rightarrow> 0 | Some c \<Rightarrow> fst (snd c))"

section \<open>The process state and its environment\<close>

text \<open>
  \<^verbatim>\<open>GlobalA2AClient\<close> is a per-process singleton and \<^verbatim>\<open>_circuit_breaker\<close> a module
  global; together with the two database tables they are the state every operation reads
  and writes. The record \<open>world\<close> holds that state, the clock, and what the operations
  cannot decide themselves:
  \<^item> \<open>net target k\<close> is what the \<open>k\<close>-th delivery to \<open>target\<close> does (\<^verbatim>\<open>get_client\<close>
    followed by \<^verbatim>\<open>client.send_message\<close>): it raises an exception or yields a response;
  \<^item> \<open>healthy\<close> is the answer of the \<^verbatim>\<open>/health\<close> endpoint;
  \<^item> \<open>db_up\<close> says whether \<^verbatim>\<open>_get_db_pool\<close> yields a pool (the statements on a pool
    are taken to succeed);
  \<^item> \<open>resolves\<close> are the calls of \<^verbatim>\<open>resolve_handshake\<close> still to come, in
    chronological order, each by this process or by another one;
  \<^item> \<open>next_uuid\<close> is the value \<^verbatim>\<open>uuid.uuid4()\<close> would give.
  \<open>trace\<close> records, in order, the deliveries attempted, the sleeps and the handshake
  requests started. Time passes only in \<^verbatim>\<open>asyncio.sleep\<close> and while awaiting a future;
  network and database calls take no time.
\<close>

datatype exn = Exc string | AsyncioTimeoutError

fun exn_str :: "exn \<Rightarrow> string" where
  "exn_str (Exc m) = m"
| "exn_str AsyncioTimeoutError = []"

type_synonym jdict = "(string \<times> string) list"

datatype event =
    Attempt string string
  | Sleep real
  | Handshake string

record resolve_call =
  at_time :: real
  in_process :: bool
  r_cid :: string
  r_result :: jdict

record log_row =
  row_correlation_id :: string
  row_source_agent :: string
  row_target_agent :: string
  row_request_text :: string
  row_incident_id :: "string option"
  row_created_at :: real
  row_completed_at :: "real option"
  row_duration_ms :: "int option"
  row_final_response :: "string option"
  row_status :: string

record world =
  clock :: real
  circuits :: circuits
  net :: "string \<Rightarrow> nat \<Rightarrow> exn + string"
  healthy :: "string \<Rightarrow> bool"
  trace :: "event list"
  db_up :: bool
  handshakes :: "string \<rightharpoonup> string \<times> jdict option"
  pending_handshakes :: "string set"
  future_results :: "string \<rightharpoonup> jdict"
  resolves :: "resolve_call list"
  delegation_logs :: "log_row list"
  next_uuid :: string

subsection \<open>Handshake records and resolution\<close>

definition create_handshake_record :: "string \<Rightarrow> world \<Rightarrow> bool \<times> world" where
  "create_handshake_record cid w =
     (if \<not> db_up w then (False, w)
      else (True, w\<lparr>handshakes := (handshakes w)(cid \<mapsto> (''PENDING'', None))\<rparr>))"

definition update_handshake_record :: "string \<Rightarrow> jdict \<Rightarrow> world \<Rightarrow> world" where
  "update_handshake_record cid result w =
     (if \<not> db_up w then w
      else (case handshakes w cid of
              None \<Rightarrow> w
            | Some _ \<Rightarrow> w\<lparr>handshakes := (handshakes w)(cid \<mapsto> (''COMPLETED'', Some result))\<rparr>))"

text \<open>
  \<^verbatim>\<open>resolve_handshake\<close>: the future of a waiter in this process gets the result (unless it
  has one) and the waiter's entry is deleted; the database row is updated in either case.
\<close>

definition resolve_handshake :: "string \<Rightarrow> jdict \<Rightarrow> world \<Rightarrow> world" where
  "resolve_handshake cid result w =
     (let w1 = (if cid \<in> pending_handshakes w
                then w\<lparr>pending_handshakes := pending_handshakes w - {cid},
                       future_results := (case future_results w cid of
                                            None \<Rightarrow> (future_results w)(cid \<mapsto> result)
                                          | Some _ \<Rightarrow> future_results w)\<rparr>
                else w)
      in update_handshake_record cid result w1)"

text \<open>
  A resolution by another process reaches this one through the database row only: its
  own \<^verbatim>\<open>_pending_handshakes\<close> has no waiter for the correlation id.
\<close>

definition perform :: "resolve_call \<Rightarrow> world \<Rightarrow> world" where
  "perform c w =
     (if in_process c then resolve_handshake (r_cid c) (r_result c) w
      else update_handshake_record (r_cid c) (r_result c) w)"

fun run_resolves :: "real \<Rightarrow> resolve_call list \<Rightarrow> world \<Rightarrow> world" where
  "run_resolves t [] w = w\<lparr>resolves := []\<rparr>"
| "run_resolves t (c # cs) w =
     (if at_time c \<le> t then run_resolves t cs (perform c w)
      else w\<lparr>resolves := c # cs\<rparr>)"

text \<open>\<^verbatim>\<open>asyncio.sleep(d)\<close>: the resolutions due by then happen, and the clock is \<open>d\<close> later.\<close>

definition sleep :: "real \<Rightarrow> world \<Rightarrow> world" where
  "sleep d w =
     (let t = clock w + d
      in (run_resolves t (resolves w) w)\<lparr>clock := t, trace := trace w @ [Sleep d]\<rparr>)"

subsection \<open>Sending a message\<close>

definition normalize_name :: "string \<Rightarrow> string" where
  "normalize_name name = map (\<lambda>c. if c = CHR ''_'' then CHR ''-'' else c) name"

datatype delivery =
    Delivered string string
  | Circuit_open string
  | Unhealthy string
  | Unreachable string
  | Py_None

fun delivery_status :: "delivery \<Rightarrow> string" where
  "delivery_status (Delivered agent response) = ''delivered''"
| "delivery_status (Circuit_open agent) = ''circuit_open''"
| "delivery_status (Unhealthy agent) = ''unhealthy''"
| "delivery_status (Unreachable agent) = ''unreachable''"
| "delivery_status Py_None = []"

fun delivery_agent :: "delivery \<Rightarrow> string" where
  "delivery_agent (Delivered agent response) = agent"
| "delivery_agent (Circuit_open agent) = agent"
| "delivery_agent (Unhealthy agent) = agent"
| "delivery_agent (Unreachable agent) = agent"
| "delivery_agent Py_None = []"

fun is_attempt_to :: "string \<Rightarrow> event \<Rightarrow> bool" where
  "is_attempt_to target (Attempt t m) = (t = target)"
| "is_attempt_to target (Sleep d) = False"
| "is_attempt_to target (Handshake t) = False"

definition attempts_to :: "string \<Rightarrow> event list \<Rightarrow> nat" where
  "attempts_to target tr = length (filter (is_attempt_to target) tr)"

text \<open>
  The retry loop of \<^verbatim>\<open>send_message\<close>, \<^verbatim>\<open>for attempt in range(retries + 1)\<close>, from
  \<open>attempt\<close> on. A delivery that raises is recorded as a failure; on the last attempt
  (\<^verbatim>\<open>attempt == retries\<close>) the exception is raised again, otherwise the loop sleeps
  \<^verbatim>\<open>min(32, 2 ** attempt)\<close> seconds and goes on. The circuit breaker is not asked again
  inside the loop. When the range is empty (\<open>retries < 0\<close>) the function falls off its end
  and returns \<^verbatim>\<open>None\<close>. The client caches that the loop invalidates only decide which
  URL \<open>net\<close> is asked at, and are left out.
\<close>

function send_loop ::
  "string \<Rightarrow> string \<Rightarrow> string \<Rightarrow> int \<Rightarrow> int \<Rightarrow> world \<Rightarrow> (exn + delivery) \<times> world" where
  "send_loop source_agent target_agent message_text retries attempt w =
     (if 0 \<le> attempt \<and> attempt < retries + 1 then
        (let k = attempts_to target_agent (trace w);
             w1 = w\<lparr>trace := trace w @ [Attempt target_agent message_text]\<rparr>
         in case net w target_agent k of
              Inr response \<Rightarrow>
                (Inr (Delivered target_agent response),
                 w1\<lparr>circuits := record_success target_agent (circuits w1)\<rparr>)
            | Inl e \<Rightarrow>
                (let w2 = w1\<lparr>circuits := record_failure (clock w1) target_agent (circuits w1)\<rparr>
                 in if attempt = retries then (Inl e, w2)
                    else send_loop source_agent target_agent message_text retries (attempt + 1)
                           (sleep (min 32 (2 ^ nat attempt)) w2)))
      else (Inr Py_None, w))"
  by pat_completeness auto
termination
  by (relation "measure (\<lambda>(s, t, m, retries, attempt, w). nat (retries + 1 - attempt))") auto

definition send_message ::
  "string \<Rightarrow> string \<Rightarrow> string \<Rightarrow> int \<Rightarrow> bool \<Rightarrow> world \<Rightarrow> (exn + delivery) \<times> world" where
  "send_message source target message_text retries check_health w =
     (let target_agent = normalize_name target;
          source_agent = normalize_name source
      in case allow_request (clock w) target_agent (circuits w) of (allowed, cs1) \<Rightarrow>
           (let w1 = w\<lparr>circuits := cs1\<rparr>
            in if \<not> allowed then (Inr (Circuit_open target_agent), w1)
               else if check_health \<and> \<not> healthy w1 target_agent
                 then (Inr (Unhealthy target_agent),
                       w1\<lparr>circuits := record_failure (clock w1) target_agent (circuits w1)\<rparr>)
               else send_loop source_agent target_agent message_text retries 0 w1))"

subsection \<open>Request and response over one-way messages\<close>

text \<open>
  \<^verbatim>\<open>_poll_handshake_result\<close>: while less than \<open>timeout\<close> seconds have passed since the
  start, read the row; a \<^verbatim>\<open>COMPLETED\<close> row is deleted and its result returned, otherwise
  the loop sleeps one second. When the time is up the row is deleted and \<^verbatim>\<open>None\<close>
  returned.
\<close>

function poll_loop :: "string \<Rightarrow> int \<Rightarrow> real \<Rightarrow> world \<Rightarrow> jdict option \<times> world" where
  "poll_loop cid timeout start_time w =
     (if clock w - start_time < of_int timeout then
        (case handshakes w cid of
           None \<Rightarrow> poll_loop cid timeout start_time (sleep 1 w)
         | Some (st, result) \<Rightarrow>
             if st = ''COMPLETED''
             then (result, w\<lparr>handshakes := (handshakes w)(cid := None)\<rparr>)
             else poll_loop cid timeout start_time (sleep 1 w))
      else (None, w\<lparr>handshakes := (handshakes w)(cid := None)\<rparr>))"
  by pat_completeness auto
termination
  by (relation "measure (\<lambda>(cid, timeout, start_time, w).
        nat \<lceil>start_time + of_int timeout - clock w\<rceil>)")
     (auto simp: sleep_def Let_def, linarith+)

definition poll_handshake_result :: "string \<Rightarrow> int \<Rightarrow> world \<Rightarrow> jdict option \<times> world" where
  "poll_handshake_result cid timeout w =
     (if \<not> db_up w then (None, w) else poll_loop cid timeout (clock w) w)"

text \<open>
  \<^verbatim>\<open>asyncio.wait_for(future, timeout)\<close>: the calls of \<^verbatim>\<open>resolve_handshake\<close> to come
  happen one by one until the future has a result or the next one is not before the
  deadline.
\<close>

fun await_future :: "string \<Rightarrow> real \<Rightarrow> resolve_call list \<Rightarrow> world \<Rightarrow> jdict option \<times> world" where
  "await_future cid deadline [] w =
     (None, w\<lparr>resolves := [], clock := max (clock w) deadline\<rparr>)"
| "await_future cid deadline (c # cs) w =
     (if at_time c < deadline then
        (let w1 = perform c (w\<lparr>clock := max (clock w) (at_time c), resolves := cs\<rparr>)
         in case future_results w1 cid of
              Some r \<Rightarrow> (Some r, w1)
            | None \<Rightarrow> await_future cid deadline cs w1)
      else (None, w\<lparr>resolves := c # cs, clock := max (clock w) deadline\<rparr>))"

definition wait_for :: "string \<Rightarrow> int \<Rightarrow> world \<Rightarrow> jdict option \<times> world" where
  "wait_for cid timeout w =
     (case future_results w cid of
        Some r \<Rightarrow> (Some r, w)
      | None \<Rightarrow> await_future cid (clock w + of_int timeout) (resolves w) w)"

text \<open>Decimal digits of an integer, as an f-string prints it.\<close>

fun str_nat :: "nat \<Rightarrow> string" where
  "str_nat n =
     (if n < 10 then [''0123456789'' ! n]
      else str_nat (n div 10) @ [''0123456789'' ! (n mod 10)])"

declare str_nat.simps [simp del]

definition str_int :: "int \<Rightarrow> string" where
  "str_int i = (if i < 0 then CHR ''-'' # str_nat (nat (- i)) else str_nat (nat i))"

text \<open>
  The text of a dictionary, as \<^verbatim>\<open>json.dumps\<close> lays it out (keys and values are taken to
  need no escaping).
\<close>

definition quoted :: "string \<Rightarrow> string" where
  "quoted s = CHR 0x22 # s @ [CHR 0x22]"

fun json_items :: "jdict \<Rightarrow> string" where
  "json_items [] = []"
| "json_items [(k, v)] = quoted k @ '': '' @ quoted v"
| "json_items ((k, v) # kvs) = quoted k @ '': '' @ quoted v @ '', '' @ json_items kvs"

definition json_dumps :: "jdict \<Rightarrow> string" where
  "json_dumps d = ''{'' @ json_items d @ ''}''"

definition handshake_envelope :: "string \<Rightarrow> jdict \<Rightarrow> string \<Rightarrow> string" where
  "handshake_envelope source_agent payload cid =
     ''{'' @ quoted ''type'' @ '': '' @ quoted ''HANDSHAKE_REQUEST'' @ '', ''
       @ quoted ''source'' @ '': '' @ quoted source_agent @ '', ''
       @ quoted ''payload'' @ '': '' @ json_dumps payload @ '', ''
       @ quoted ''correlation_id'' @ '': '' @ quoted cid @ ''}''"

text \<open>
  The two \<^verbatim>\<open>except\<close> clauses of \<^verbatim>\<open>send_request_with_handshake\<close>: a failure is recorded
  on the circuit breaker and the waiter removed; a timeout is raised again as a plain
  exception with its own message, any other exception as it is.
\<close>

definition handshake_failed ::
  "exn \<Rightarrow> string \<Rightarrow> string \<Rightarrow> int \<Rightarrow> world \<Rightarrow> (exn + jdict) \<times> world" where
  "handshake_failed e target_agent cid timeout w =
     (let w1 = w\<lparr>circuits := record_failure (clock w) target_agent (circuits w),
                 pending_handshakes := pending_handshakes w - {cid}\<rparr>
      in case e of
           AsyncioTimeoutError \<Rightarrow>
             (Inl (Exc (''Agent '' @ target_agent @ '' did not respond within ''
                        @ str_int timeout @ ''s'')), w1)
         | Exc m \<Rightarrow> (Inl (Exc m), w1))"

text \<open>
  \<^verbatim>\<open>send_request_with_handshake\<close>. The value \<^verbatim>\<open>send_message\<close> returns is not looked at:
  after a \<^verbatim>\<open>circuit_open\<close> answer the caller waits all the same. With a database the
  result comes from polling, and \<^verbatim>\<open>if result:\<close> takes a missing or empty result for a
  timeout; without one it comes from the future.
\<close>

definition send_request_with_handshake ::
  "string \<Rightarrow> string \<Rightarrow> jdict \<Rightarrow> string option \<Rightarrow> int \<Rightarrow> world \<Rightarrow> (exn + jdict) \<times> world" where
  "send_request_with_handshake source_agent target payload correlation_id timeout w0 =
     (let w = w0\<lparr>trace := trace w0 @ [Handshake target]\<rparr>;
          cid = (case correlation_id of
                   None \<Rightarrow> next_uuid w
                 | Some c \<Rightarrow> if c = [] then next_uuid w else c);
          target_agent = normalize_name target
      in case allow_request (clock w) target_agent (circuits w) of (allowed, cs1) \<Rightarrow>
           (let w1 = w\<lparr>circuits := cs1\<rparr>
            in if \<not> allowed
               then (Inl (Exc (''Circuit breaker OPEN for '' @ target_agent)), w1)
               else
                 (case create_handshake_record cid w1 of (db_available, w2) \<Rightarrow>
                    (let w3 = w2\<lparr>pending_handshakes := insert cid (pending_handshakes w2),
                                  future_results := (future_results w2)(cid := None)\<rparr>;
                         message_content = handshake_envelope source_agent payload cid
                     in case send_message source_agent target_agent message_content 3 False w3 of
                          (Inl e, w4) \<Rightarrow> handshake_failed e target_agent cid timeout w4
                        | (Inr d, w4) \<Rightarrow>
                            if db_available then
                              (case poll_handshake_result cid timeout w4 of (result, w5) \<Rightarrow>
                                 (case result of
                                    None \<Rightarrow>
                                      handshake_failed AsyncioTimeoutError target_agent cid timeout w5
                                  | Some r \<Rightarrow>
                                      if r = []
                                      then handshake_failed AsyncioTimeoutError target_agent cid
                                             timeout w5
                                      else (Inr r,
                                            w5\<lparr>circuits := record_success target_agent (circuits w5),
                                               pending_handshakes := pending_handshakes w5 - {cid}\<rparr>)))
                            else
                              (case wait_for cid timeout w4 of
                                 (None, w5) \<Rightarrow>
                                   handshake_failed AsyncioTimeoutError target_agent cid timeout w5
                               | (Some r, w5) \<Rightarrow>
                                   (Inr r, w5\<lparr>circuits := record_success target_agent (circuits w5)\<rparr>))))))"

subsection \<open>Broadcast\<close>




subsection \<open>Concrete worlds for the examples\<close>

text \<open>
  A process that has done nothing yet, at clock 0, with a database and the network \<open>n\<close>;
  and a network on which the first \<open>n\<close> deliveries to any agent are refused and the later
  ones are answered.
\<close>

definition quiet :: "(string \<Rightarrow> nat \<Rightarrow> exn + string) \<Rightarrow> world" where
  "quiet n = \<lparr>clock = 0, circuits = Map.empty, net = n, healthy = (\<lambda>a. True), trace = [],
     db_up = True, handshakes = Map.empty, pending_handshakes = {},
     future_results = Map.empty, resolves = [], delegation_logs = [],
     next_uuid = ''6f1c''\<rparr>"

definition down_for :: "nat \<Rightarrow> string \<Rightarrow> nat \<Rightarrow> exn + string" where
  "down_for n agent k = (if k < n then Inl (Exc ''All connection attempts failed'') else Inr ''ok'')"

text \<open>A process for which the circuit of \<^verbatim>\<open>medical-agent\<close> opened six seconds ago.\<close>

definition tripped :: world where
  "tripped = (quiet (down_for 0))\<lparr>clock := 10,
     circuits := [''medical-agent'' \<mapsto> (OPEN, 3, 4, 0)]\<rparr>"

text \<open>
  A quiet process to which another process will post the result \<^verbatim>\<open>{"status": "received"}\<close>
  for correlation id \<^verbatim>\<open>cid-1\<close> at clock \<open>r\<close>.
\<close>

definition answered_at :: "real \<Rightarrow> world" where
  "answered_at r = (quiet (down_for 0))\<lparr>resolves :=
     [\<lparr>at_time = r, in_process = False, r_cid = ''cid-1'',
       r_result = [(''status'', ''received'')]\<rparr>]\<rparr>"


section \<open>Rate admission\<close>













section \<open>Delegation\<close>

subsection \<open>Extracting the incident id\<close>

text \<open>
  \<^verbatim>\<open>lib/tools/delegation_tool.py\<close>, \<^verbatim>\<open>extract_incident_id\<close>. The two calls of
  \<^verbatim>\<open>re.search\<close> are written out as matchers on the characters of the text, which is
  taken to be ASCII; \<^verbatim>\<open>re.search\<close> returns the match at the leftmost position that has
  one.

  Pattern 1, \<^verbatim>\<open>[Ii]ncident\s*[Ii][Dd][:=]\s*([A-Z0-9_-]+)\<close>: each \<^verbatim>\<open>\s*\<close> is followed by
  a character class without white space, and the group ends the pattern, so at a given
  position the greedy match is the only one. \<open>match_label\<close> is the match at the head of
  its argument.

  Pattern 2, \<^verbatim>\<open>\b([A-Z][A-Z0-9]*(?:_[A-Z0-9]+){2,})\b\<close>: every character of a match is a
  word character, so the first \<^verbatim>\<open>\b\<close> asks for no word character before the match and a
  match can only end before a character that is not one (or at the end); any match
  shorter than the greedy one ends before a character of the greedy one, hence at a given
  position only the greedy match can succeed. \<open>parse_groups\<close> reads the groups
  \<^verbatim>\<open>_[A-Z0-9]+\<close> greedily; \<open>match_caps prev\<close> is the match at the head of its argument,
  \<open>prev\<close> being the character before it.
\<close>

definition is_upper :: "char \<Rightarrow> bool" where
  "is_upper c = (c \<in> set ''ABCDEFGHIJKLMNOPQRSTUVWXYZ'')"

definition is_lower :: "char \<Rightarrow> bool" where
  "is_lower c = (c \<in> set ''abcdefghijklmnopqrstuvwxyz'')"

definition is_digit :: "char \<Rightarrow> bool" where
  "is_digit c = (c \<in> set ''0123456789'')"

definition is_space :: "char \<Rightarrow> bool" where
  "is_space c = (c \<in> set [CHR 0x09, CHR 0x0A, CHR 0x0B, CHR 0x0C, CHR 0x0D,
                            CHR 0x1C, CHR 0x1D, CHR 0x1E, CHR 0x1F, CHR 0x20])"

definition is_word :: "char \<Rightarrow> bool" where
  "is_word c = (is_upper c \<or> is_lower c \<or> is_digit c \<or> c = CHR ''_'')"

definition is_caps :: "char \<Rightarrow> bool" where
  "is_caps c = (is_upper c \<or> is_digit c)"

definition is_id_char :: "char \<Rightarrow> bool" where
  "is_id_char c = (is_upper c \<or> is_digit c \<or> c = CHR ''_'' \<or> c = CHR ''-'')"

fun strip_prefix :: "string \<Rightarrow> string \<Rightarrow> string option" where
  "strip_prefix [] s = Some s"
| "strip_prefix (p # ps) [] = None"
| "strip_prefix (p # ps) (c # cs) = (if p = c then strip_prefix ps cs else None)"

definition match_label :: "string \<Rightarrow> string option" where
  "match_label s =
     (case s of
        [] \<Rightarrow> None
      | c # r \<Rightarrow>
          if c = CHR ''I'' \<or> c = CHR ''i'' then
            (case strip_prefix ''ncident'' r of
               None \<Rightarrow> None
             | Some r1 \<Rightarrow>
                 (case dropWhile is_space r1 of
                    i # d # p # r3 \<Rightarrow>
                      if (i = CHR ''I'' \<or> i = CHR ''i'') \<and> (d = CHR ''D'' \<or> d = CHR ''d'')
                         \<and> (p = CHR '':'' \<or> p = CHR ''='')
                      then (let g = takeWhile is_id_char (dropWhile is_space r3)
                            in if g = [] then None else Some g)
                      else None
                  | _ \<Rightarrow> None))
          else None)"

fun search_label :: "string \<Rightarrow> string option" where
  "search_label [] = None"
| "search_label (c # cs) =
     (case match_label (c # cs) of
        Some g \<Rightarrow> Some g
      | None \<Rightarrow> search_label cs)"

function parse_groups :: "string \<Rightarrow> string list \<times> string" where
  "parse_groups [] = ([], [])"
| "parse_groups (u # cs) =
     (if u = CHR ''_'' \<and> takeWhile is_caps cs \<noteq> []
      then (case parse_groups (dropWhile is_caps cs) of
              (groups, rest) \<Rightarrow> ((u # takeWhile is_caps cs) # groups, rest))
      else ([], u # cs))"
  by pat_completeness auto
termination
  by (relation "measure length") (auto simp: length_dropWhile_le le_imp_less_Suc)

definition match_caps :: "char option \<Rightarrow> string \<Rightarrow> string option" where
  "match_caps prev s =
     (case s of
        [] \<Rightarrow> None
      | c # r \<Rightarrow>
          if (case prev of None \<Rightarrow> True | Some b \<Rightarrow> \<not> is_word b) \<and> is_upper c then
            (case parse_groups (dropWhile is_caps r) of
               (groups, rest) \<Rightarrow>
                 if length groups \<ge> 2 \<and> (case rest of [] \<Rightarrow> True | n # _ \<Rightarrow> \<not> is_word n)
                 then Some (c # takeWhile is_caps r @ concat groups)
                 else None)
          else None)"

fun search_caps :: "char option \<Rightarrow> string \<Rightarrow> string option" where
  "search_caps prev [] = None"
| "search_caps prev (c # cs) =
     (case match_caps prev (c # cs) of
        Some g \<Rightarrow> Some g
      | None \<Rightarrow> search_caps (Some c) cs)"

definition extract_incident_id :: "string \<Rightarrow> string option" where
  "extract_incident_id text =
     (if text = [] then None
      else case search_label text of
             Some g \<Rightarrow> Some g
           | None \<Rightarrow> search_caps None text)"


subsection \<open>The delegation ledger\<close>

text \<open>
  \<^verbatim>\<open>lib/utils/communication.py\<close>: the table \<^verbatim>\<open>delegation_logs\<close> is the list
  \<open>delegation_logs\<close> of the world, in the order of insertion; \<^verbatim>\<open>NOW()\<close> is the clock. The
  columns for the tools called and the tokens spent are left out. \<^verbatim>\<open>create_delegation_log\<close>
  stores the target as it is given; \<^verbatim>\<open>check_delegation_exists\<close> compares with the
  normalised name. The \<^verbatim>\<open>UPDATE\<close> of \<^verbatim>\<open>update_delegation_log\<close> changes every row of the
  correlation id.
\<close>

definition create_delegation_log ::
  "string \<Rightarrow> string \<Rightarrow> string \<Rightarrow> string \<Rightarrow> string option \<Rightarrow> world \<Rightarrow> bool \<times> world" where
  "create_delegation_log cid source_agent target_agent request incident_id w =
     (if \<not> db_up w then (False, w)
      else (True, w\<lparr>delegation_logs := delegation_logs w @
              [\<lparr>row_correlation_id = cid, row_source_agent = source_agent,
                row_target_agent = target_agent, row_request_text = request,
                row_incident_id = incident_id, row_created_at = clock w,
                row_completed_at = None, row_duration_ms = None,
                row_final_response = None, row_status = ''PENDING''\<rparr>]\<rparr>))"

definition update_delegation_log ::
  "string \<Rightarrow> string option \<Rightarrow> int option \<Rightarrow> string \<Rightarrow> world \<Rightarrow> bool \<times> world" where
  "update_delegation_log cid final_response duration_ms status w =
     (if \<not> db_up w then (False, w)
      else (True, w\<lparr>delegation_logs :=
              map (\<lambda>r. if row_correlation_id r = cid
                       then r\<lparr>row_completed_at := Some (clock w),
                              row_duration_ms := duration_ms,
                              row_final_response := final_response,
                              row_status := status\<rparr>
                       else r)
                  (delegation_logs w)\<rparr>))"

text \<open>
  \<^verbatim>\<open>ORDER BY created_at DESC LIMIT 1\<close>: a row with the greatest \<^verbatim>\<open>created_at\<close>. SQL
  leaves open which one it is among rows of the same time; here it is the one inserted
  last.
\<close>

fun newest :: "log_row list \<Rightarrow> log_row option" where
  "newest [] = None"
| "newest (r # rs) =
     (case newest rs of
        None \<Rightarrow> Some r
      | Some b \<Rightarrow> if row_created_at r > row_created_at b then Some r else Some b)"

definition check_delegation_exists :: "string \<Rightarrow> string \<Rightarrow> int \<Rightarrow> world \<Rightarrow> log_row option" where
  "check_delegation_exists incident_id target max_age_seconds w =
     (if incident_id = [] then None
      else if \<not> db_up w then None
      else (let target_agent = normalize_name target
            in newest (filter (\<lambda>r. row_incident_id r = Some incident_id
                                  \<and> row_target_agent r = target_agent
                                  \<and> row_created_at r > clock w - of_int max_age_seconds
                                  \<and> (row_status r = ''PENDING'' \<or> row_status r = ''COMPLETED''))
                         (delegation_logs w))))"

subsection \<open>Delegating to an agent\<close>

definition get_cid :: "string option \<Rightarrow> string" where
  "get_cid correlation_id_var =
     (case correlation_id_var of
        None \<Rightarrow> ''UNKNOWN''
      | Some c \<Rightarrow> if c = [] then ''UNKNOWN'' else c)"

definition failover_agents :: "string \<rightharpoonup> string" where
  "failover_agents = map_of
     [(''medical-agent'', ''police-chief-agent''),
      (''civic-alert-agent'', ''police-chief-agent''),
      (''fire-chief-agent'', ''police-chief-agent''),
      (''utility-agent'', ''fire-chief-agent''),
      (''police-chief-agent'', ''fire-chief-agent'')]"

text \<open>The agent reached from \<open>a\<close> by following the failover mapping \<open>n\<close> times.\<close>

fun failover_chain :: "nat \<Rightarrow> string \<Rightarrow> string option" where
  "failover_chain 0 a = Some a"
| "failover_chain (Suc n) a =
     (case failover_agents a of
        None \<Rightarrow> None
      | Some b \<Rightarrow> failover_chain n b)"

definition lower_char :: "char \<Rightarrow> char" where
  "lower_char c =
     (case map_of (zip ''ABCDEFGHIJKLMNOPQRSTUVWXYZ'' ''abcdefghijklmnopqrstuvwxyz'') c of
        Some l \<Rightarrow> l
      | None \<Rightarrow> c)"

definition py_lower :: "string \<Rightarrow> string" where
  "py_lower s = map lower_char s"

text \<open>\<open>contains sub s\<close> is Python's \<^verbatim>\<open>sub in s\<close>.\<close>

fun contains :: "string \<Rightarrow> string \<Rightarrow> bool" where
  "contains sub [] = (sub = [])"
| "contains sub (c # cs) = (strip_prefix sub (c # cs) \<noteq> None \<or> contains sub cs)"

definition is_connection_failure :: "string \<Rightarrow> bool" where
  "is_connection_failure error_str =
     (contains ''503'' error_str \<or> contains ''connection'' (py_lower error_str)
      \<or> contains ''timeout'' (py_lower error_str))"

text \<open>\<^verbatim>\<open>int(x)\<close> of a float cuts towards zero.\<close>

definition py_int :: "real \<Rightarrow> int" where
  "py_int x = (if 0 \<le> x then \<lfloor>x\<rfloor> else \<lceil>x\<rceil>)"

text \<open>\<^verbatim>\<open>str\<close> of a dictionary (keys and values are taken to need no escaping).\<close>

definition squoted :: "string \<Rightarrow> string" where
  "squoted s = CHR 0x27 # s @ [CHR 0x27]"

fun str_items :: "jdict \<Rightarrow> string" where
  "str_items [] = []"
| "str_items [(k, v)] = squoted k @ '': '' @ squoted v"
| "str_items ((k, v) # kvs) = squoted k @ '': '' @ squoted v @ '', '' @ str_items kvs"

definition py_str_dict :: "jdict \<Rightarrow> string" where
  "py_str_dict d = ''{'' @ str_items d @ ''}''"

datatype delegation =
    Already_handled string string string
  | Delegated string string int
  | Timed_out string int
  | Failover string string string int
  | Failed string string int

fun delegation_status :: "delegation \<Rightarrow> string" where
  "delegation_status (Already_handled delegated_to handled_by incident_id) = ''already_handled''"
| "delegation_status (Delegated delegated_to response ms) = ''delegated''"
| "delegation_status (Timed_out delegated_to ms) = ''timeout''"
| "delegation_status (Failover original_target handled_by response ms) = ''failover''"
| "delegation_status (Failed delegated_to error ms) = ''failed''"

fun handshake_targets :: "event list \<Rightarrow> string list" where
  "handshake_targets [] = []"
| "handshake_targets (Handshake t # tr) = t # handshake_targets tr"
| "handshake_targets (Attempt t m # tr) = handshake_targets tr"
| "handshake_targets (Sleep d # tr) = handshake_targets tr"

text \<open>
  \<^verbatim>\<open>delegate_to_agent\<close>, the function that \<^verbatim>\<open>create_delegation_tool\<close> builds for a source
  and a target; \<open>correlation_id_var\<close> is the value of the context variable. The three
  outcomes of the handshake are its three \<^verbatim>\<open>try\<close> branches. The failover request is sent
  by \<^verbatim>\<open>send_request_with_handshake\<close> itself, not by a delegation of its own; when it raises,
  the original failure is recorded.
\<close>

definition delegate_to_agent ::
  "string \<Rightarrow> string \<Rightarrow> string \<Rightarrow> string option \<Rightarrow> world \<Rightarrow> delegation \<times> world" where
  "delegate_to_agent source_agent target_agent request correlation_id_var w =
     (let cid = get_cid correlation_id_var;
          start_time = clock w;
          incident_id = extract_incident_id request;
          existing = (case incident_id of
                        None \<Rightarrow> None
                      | Some i \<Rightarrow> if i = [] then None
                                  else check_delegation_exists i target_agent 300 w)
      in case existing of
           Some row \<Rightarrow>
             (Already_handled target_agent (row_source_agent row) (the incident_id), w)
         | None \<Rightarrow>
             (case create_delegation_log cid source_agent target_agent request incident_id w of
                (logged, w1) \<Rightarrow>
                  (case send_request_with_handshake source_agent target_agent
                          [(''type'', ''DELEGATION_REQUEST''), (''request'', request),
                           (''source'', source_agent), (''requires_response'', ''True'')]
                          (Some cid) 60 w1 of
                     (Inr response, w2) \<Rightarrow>
                       (let duration_ms = py_int ((clock w2 - start_time) * 1000);
                            final_response =
                              (case map_of response ''message'' of
                                 Some m \<Rightarrow> m
                               | None \<Rightarrow> (case map_of response ''result'' of
                                            Some r \<Rightarrow> r
                                          | None \<Rightarrow> py_str_dict response))
                        in case update_delegation_log cid (Some final_response)
                                  (Some duration_ms) ''COMPLETED'' w2 of
                             (updated, w3) \<Rightarrow>
                               (Delegated target_agent final_response duration_ms, w3))
                   | (Inl AsyncioTimeoutError, w2) \<Rightarrow>
                       (let duration_ms = py_int ((clock w2 - start_time) * 1000)
                        in case update_delegation_log cid None (Some duration_ms)
                                  ''TIMEOUT'' w2 of
                             (updated, w3) \<Rightarrow> (Timed_out target_agent duration_ms, w3))
                   | (Inl (Exc error_str), w2) \<Rightarrow>
                       (let duration_ms = py_int ((clock w2 - start_time) * 1000);
                            failed = (\<lambda>w'. case update_delegation_log cid (Some error_str)
                                                  (Some duration_ms) ''FAILED'' w' of
                                             (updated, w3) \<Rightarrow>
                                               (Failed target_agent error_str duration_ms, w3))
                        in case failover_agents target_agent of
                             None \<Rightarrow> failed w2
                           | Some failover_target \<Rightarrow>
                               if is_connection_failure error_str \<and> failover_target \<noteq> []
                               then
                                 (case send_request_with_handshake source_agent failover_target
                                         [(''type'', ''DELEGATION_REQUEST''),
                                          (''request'', ''[FAILOVER from '' @ target_agent
                                                         @ ''] '' @ request),
                                          (''source'', source_agent),
                                          (''requires_response'', ''True''),
                                          (''is_failover'', ''True''),
                                          (''original_target'', target_agent)]
                                         (Some cid) 60 w2 of
                                    (Inr failover_response, w3) \<Rightarrow>
                                      (let failover_duration_ms =
                                             py_int ((clock w3 - start_time) * 1000);
                                           final_response =
                                             (case map_of failover_response ''message'' of
                                                Some m \<Rightarrow> m
                                              | None \<Rightarrow> py_str_dict failover_response)
                                       in case update_delegation_log cid
                                                 (Some (''[FAILOVER to '' @ failover_target
                                                        @ ''] '' @ final_response))
                                                 (Some failover_duration_ms)
                                                 ''FAILOVER_SUCCESS'' w3 of
                                            (updated, w4) \<Rightarrow>
                                              (Failover target_agent failover_target
                                                 final_response failover_duration_ms, w4))
                                  | (Inl failover_error, w3) \<Rightarrow> failed w3)
                               else failed w2))))"

text \<open>
  What \<^verbatim>\<open>update_delegation_log\<close> is called with for each outcome of a delegation that was
  not skipped: the final response, the duration and the status.
\<close>

fun recorded :: "delegation \<Rightarrow> string option \<times> int option \<times> string" where
  "recorded (Already_handled delegated_to handled_by incident_id) = (None, None, ''PENDING'')"
| "recorded (Delegated delegated_to response ms) = (Some response, Some ms, ''COMPLETED'')"
| "recorded (Timed_out delegated_to ms) = (None, Some ms, ''TIMEOUT'')"
| "recorded (Failover original_target handled_by response ms) =
     (Some (''[FAILOVER to '' @ handled_by @ ''] '' @ response), Some ms, ''FAILOVER_SUCCESS'')"
| "recorded (Failed delegated_to error ms) = (Some error, Some ms, ''FAILED'')"


subsection \<open>Facts about the circuit breaker\<close>

lemma get_state_half_open_stored:
  "get_state now a cs = (HALF_OPEN, cs1) \<Longrightarrow> cs1 a \<noteq> None"
  by (auto simp: get_state_def split: option.splits prod.splits if_splits)

lemma get_state_other [simp]:
  "b \<noteq> a \<Longrightarrow> snd (get_state now a cs) b = cs b"
  by (auto simp: get_state_def split: option.splits prod.splits)

lemma record_success_other [simp]:
  "b \<noteq> a \<Longrightarrow> record_success a cs b = cs b"
  by (simp add: record_success_def)

lemma record_failure_other [simp]:
  "b \<noteq> a \<Longrightarrow> record_failure now a cs b = cs b"
  by (auto simp: record_failure_def Let_def split: option.splits prod.splits)


lemma allow_request_closed:
  "cs a = None \<or> (\<exists>n l k. cs a = Some (CLOSED, n, l, k)) \<Longrightarrow> allow_request now a cs = (True, cs)"
  by (auto simp: allow_request_def get_state_def)

lemma allow_request_blocked_unchanged:
  "fst (allow_request now a cs) = False \<Longrightarrow> snd (allow_request now a cs) = cs"
  by (auto simp: allow_request_def get_state_def CIRCUIT_HALF_OPEN_MAX_def
      split: option.splits prod.splits if_splits)

lemma allow_request_open:
  assumes "cs a = Some (OPEN, n, l, k)"
  shows "now - l \<le> 60 \<Longrightarrow> allow_request now a cs = (False, cs)"
    and "now - l > 60 \<Longrightarrow> allow_request now a cs = (True, cs(a \<mapsto> (HALF_OPEN, n, l, 1)))"
  using assms
  by (auto simp: allow_request_def get_state_def CIRCUIT_RESET_TIMEOUT_def
      CIRCUIT_HALF_OPEN_MAX_def)

lemma allow_request_half_open_used:
  assumes "cs a = Some (HALF_OPEN, n, l, Suc k)"
  shows "allow_request now a cs = (False, cs)"
  using assms
  by (auto simp: allow_request_def get_state_def CIRCUIT_HALF_OPEN_MAX_def)

lemma record_failure_half_open:
  assumes "cs a = Some (HALF_OPEN, n, l, k)"
  shows "record_failure now a cs a = Some (OPEN, n + 1, now, 0)"
  using assms by (simp add: record_failure_def)

text \<open>
  C2. Circuit breaker lifecycle. A destination \<open>a\<close> starts cold (no entry) or freshly
  reset. After one and after two failures requests are still allowed; after the third
  (the threshold) the stored state is \<open>OPEN\<close> and \<open>allow_request\<close> answers false, leaving
  the circuits unchanged, at every clock value up to 60 seconds after the last failure.
  At any later clock value it answers true once, and on the resulting circuits it answers
  false at every clock value (one half-open probe). A failure recorded then puts the
  destination back to \<open>OPEN\<close>, closed to requests for another 60 seconds; a success
  recorded on any circuits stores \<open>(CLOSED, 0, 0, 0)\<close> and requests are allowed again.
\<close>

theorem circuit_breaker_lifecycle:
  fixes cs :: circuits and a :: string and t1 t2 t3 :: real
  assumes cold: "cs a = None \<or> cs a = Some (CLOSED, 0, 0, 0)"
  defines "cs1 \<equiv> record_failure t1 a cs"
  defines "cs2 \<equiv> record_failure t2 a cs1"
  defines "cs3 \<equiv> record_failure t3 a cs2"
  shows "fst (allow_request now a cs) \<and> fst (allow_request now a cs1)
         \<and> fst (allow_request now a cs2)
         \<and> stored_state cs3 a = OPEN \<and> failure_count cs3 a = CIRCUIT_FAILURE_THRESHOLD
         \<and> (now - t3 \<le> CIRCUIT_RESET_TIMEOUT \<longrightarrow> allow_request now a cs3 = (False, cs3))
         \<and> (now - t3 > CIRCUIT_RESET_TIMEOUT \<longrightarrow>
               fst (allow_request now a cs3)
             \<and> allow_request later a (snd (allow_request now a cs3))
                 = (False, snd (allow_request now a cs3))
             \<and> stored_state (record_failure t4 a (snd (allow_request now a cs3))) a = OPEN
             \<and> (later - t4 \<le> CIRCUIT_RESET_TIMEOUT \<longrightarrow>
                  \<not> fst (allow_request later a
                          (record_failure t4 a (snd (allow_request now a cs3))))))
         \<and> record_success a any a = Some (CLOSED, 0, 0, 0)
         \<and> fst (allow_request later a (record_success a any))"
proof -
  have c1: "cs1 a = Some (CLOSED, 1, t1, 0)"
    and c2: "cs2 a = Some (CLOSED, 2, t2, 0)"
    and c3: "cs3 a = Some (OPEN, 3, t3, 0)"
    using cold
    by (auto simp: cs1_def cs2_def cs3_def record_failure_def CIRCUIT_FAILURE_THRESHOLD_def)
  have p1: "fst (allow_request now a cs) \<and> fst (allow_request now a cs1)
           \<and> fst (allow_request now a cs2)"
    using cold c1 c2 by (auto simp: allow_request_closed)
  have p2: "stored_state cs3 a = OPEN \<and> failure_count cs3 a = CIRCUIT_FAILURE_THRESHOLD"
    using c3 by (simp add: stored_state_def failure_count_def CIRCUIT_FAILURE_THRESHOLD_def)
  have p3: "now - t3 \<le> CIRCUIT_RESET_TIMEOUT \<longrightarrow> allow_request now a cs3 = (False, cs3)"
    using allow_request_open(1)[where cs = cs3 and a = a, OF c3] by (simp add: CIRCUIT_RESET_TIMEOUT_def)
  have p4: "fst (allow_request now a cs3)
           \<and> allow_request later a (snd (allow_request now a cs3))
               = (False, snd (allow_request now a cs3))
           \<and> stored_state (record_failure t4 a (snd (allow_request now a cs3))) a = OPEN
           \<and> (later - t4 \<le> CIRCUIT_RESET_TIMEOUT \<longrightarrow>
                \<not> fst (allow_request later a
                        (record_failure t4 a (snd (allow_request now a cs3)))))"
    if late: "now - t3 > CIRCUIT_RESET_TIMEOUT"
  proof -
    let ?cs4 = "snd (allow_request now a cs3)"
    have probe: "allow_request now a cs3 = (True, cs3(a \<mapsto> (HALF_OPEN, 3, t3, 1)))"
      using allow_request_open(2)[where cs = cs3 and a = a, OF c3] late by (simp add: CIRCUIT_RESET_TIMEOUT_def)
    have c4: "?cs4 a = Some (HALF_OPEN, 3, t3, Suc 0)"
      by (simp add: probe)
    have c5: "record_failure t4 a ?cs4 a = Some (OPEN, 3 + 1, t4, 0)"
      by (rule record_failure_half_open[where cs = "?cs4" and a = a, OF c4])
    show ?thesis
      using allow_request_half_open_used[where cs = "?cs4" and a = a and now = later, OF c4]
        allow_request_open(1)[where cs = "record_failure t4 a ?cs4" and a = a and now = later, OF c5] c5 probe
      by (simp add: stored_state_def CIRCUIT_RESET_TIMEOUT_def)
  qed
  have p5: "record_success a any a = Some (CLOSED, 0, 0, 0)
           \<and> fst (allow_request later a (record_success a any))"
    by (simp add: record_success_def allow_request_closed)
  show ?thesis
    using p1 p2 p3 p4 p5 by blast
qed

theorem circuit_breaker_lifecycle_witness:
  "(Map.empty :: circuits) ''medical-agent'' = None
   \<and> fst (allow_request 5 ''medical-agent''
        (record_failure 2 ''medical-agent'' (record_failure 1 ''medical-agent'' Map.empty)))
   \<and> \<not> fst (allow_request 63 ''medical-agent''
        (record_failure 3 ''medical-agent''
          (record_failure 2 ''medical-agent'' (record_failure 1 ''medical-agent'' Map.empty))))
   \<and> (64 :: real) - 3 > CIRCUIT_RESET_TIMEOUT
   \<and> fst (allow_request 64 ''medical-agent''
        (record_failure 3 ''medical-agent''
          (record_failure 2 ''medical-agent'' (record_failure 1 ''medical-agent'' Map.empty))))
   \<and> \<not> fst (allow_request 500 ''medical-agent''
        (snd (allow_request 64 ''medical-agent''
          (record_failure 3 ''medical-agent''
            (record_failure 2 ''medical-agent''
              (record_failure 1 ''medical-agent'' Map.empty))))))"
  using circuit_breaker_lifecycle[where cs = Map.empty and a = "''medical-agent''"
      and ?t1.0 = 1 and ?t2.0 = 2 and ?t3.0 = 3 and now = 63 and later = 500 and ?t4.0 = 65]
    circuit_breaker_lifecycle[where cs = Map.empty and a = "''medical-agent''"
      and ?t1.0 = 1 and ?t2.0 = 2 and ?t3.0 = 3 and now = 64 and later = 500 and ?t4.0 = 65]
    circuit_breaker_lifecycle[where cs = Map.empty and a = "''medical-agent''"
      and ?t1.0 = 1 and ?t2.0 = 2 and ?t3.0 = 3 and now = 5 and later = 500 and ?t4.0 = 65]
  by (simp add: CIRCUIT_RESET_TIMEOUT_def)

subsection \<open>Facts about the messaging client\<close>

lemma perform_frame [simp]:
  "clock (perform c w) = clock w" "circuits (perform c w) = circuits w"
  "net (perform c w) = net w" "healthy (perform c w) = healthy w"
  "trace (perform c w) = trace w" "db_up (perform c w) = db_up w"
  "delegation_logs (perform c w) = delegation_logs w" "next_uuid (perform c w) = next_uuid w"
  by (auto simp: perform_def resolve_handshake_def update_handshake_record_def Let_def
      split: option.splits)

lemma run_resolves_frame [simp]:
  "clock (run_resolves t cs w) = clock w" "circuits (run_resolves t cs w) = circuits w"
  "net (run_resolves t cs w) = net w" "healthy (run_resolves t cs w) = healthy w"
  "trace (run_resolves t cs w) = trace w" "db_up (run_resolves t cs w) = db_up w"
  "delegation_logs (run_resolves t cs w) = delegation_logs w"
  "next_uuid (run_resolves t cs w) = next_uuid w"
  by (induction cs arbitrary: w; simp)+

lemma sleep_frame [simp]:
  "clock (sleep d w) = clock w + d" "circuits (sleep d w) = circuits w"
  "net (sleep d w) = net w" "healthy (sleep d w) = healthy w"
  "trace (sleep d w) = trace w @ [Sleep d]" "db_up (sleep d w) = db_up w"
  "delegation_logs (sleep d w) = delegation_logs w" "next_uuid (sleep d w) = next_uuid w"
  by (simp_all add: sleep_def Let_def)

lemma attempts_to_simps [simp]:
  "attempts_to t [] = 0"
  "attempts_to t (Attempt u m # tr) = (if u = t then Suc (attempts_to t tr) else attempts_to t tr)"
  "attempts_to t (Sleep d # tr) = attempts_to t tr"
  "attempts_to t (Handshake h # tr) = attempts_to t tr"
  "attempts_to t (tr @ tr') = attempts_to t tr + attempts_to t tr'"
  by (simp_all add: attempts_to_def)

declare send_loop.simps [simp del]

lemma send_loop_ok:
  assumes "0 \<le> attempt" "attempt \<le> retries"
    and "\<not> isl (net w t (attempts_to t (trace w)))"
  shows "send_loop s t m retries attempt w =
     (Inr (Delivered t (projr (net w t (attempts_to t (trace w))))),
      w\<lparr>trace := trace w @ [Attempt t m], circuits := record_success t (circuits w)\<rparr>)"
  using assms by (subst send_loop.simps) (auto simp: Let_def split: sum.splits)

lemma send_loop_last:
  assumes "0 \<le> retries"
    and "isl (net w t (attempts_to t (trace w)))"
  shows "send_loop s t m retries retries w =
     (Inl (projl (net w t (attempts_to t (trace w)))),
      w\<lparr>trace := trace w @ [Attempt t m],
        circuits := record_failure (clock w) t (circuits w)\<rparr>)"
  using assms by (subst send_loop.simps) (auto simp: Let_def split: sum.splits)

lemma send_loop_retry:
  assumes "0 \<le> attempt" "attempt < retries"
    and "isl (net w t (attempts_to t (trace w)))"
  shows "send_loop s t m retries attempt w =
     send_loop s t m retries (attempt + 1)
       (sleep (min 32 (2 ^ nat attempt))
          (w\<lparr>trace := trace w @ [Attempt t m],
             circuits := record_failure (clock w) t (circuits w)\<rparr>))"
  using assms by (subst send_loop.simps) (auto simp: Let_def split: sum.splits)

lemmas send_loop_unfold =
  send_loop_retry send_loop_ok send_loop_last record_failure_def record_success_def
  CIRCUIT_FAILURE_THRESHOLD_def

lemma send_message_allowed:
  assumes "circuits w (normalize_name target) = None
           \<or> circuits w (normalize_name target) = Some (CLOSED, 0, 0, 0)"
  shows "send_message source target m retries False w =
           send_loop (normalize_name source) (normalize_name target) m retries 0 w"
  using assms allow_request_closed[of "circuits w" "normalize_name target" "clock w"]
  by (auto simp: send_message_def Let_def)

text \<open>
  C4, as amended. \<^verbatim>\<open>range(retries + 1)\<close> gives the first delivery and \<open>retries\<close> more. A
  call with \<open>retries = 3\<close> to a destination whose circuit is closed and without failures,
  and which refuses the first three deliveries, makes a fourth one. When that one is
  answered the call returns \<^verbatim>\<open>delivered\<close> after four deliveries, and the success has
  reset the circuit to \<open>(CLOSED, 0, 0, 0)\<close>. When it is refused too, the call raises that
  fourth exception, after four deliveries and seven seconds of backoff, and the circuit is
  \<open>OPEN\<close> with four failures. Three deliveries, the third exception raised and an \<open>OPEN\<close>
  circuit with three failures are what a call with \<open>retries = 2\<close> gives.
\<close>

theorem send_message_retry_bound:
  fixes w :: world and target :: string
  defines "t \<equiv> normalize_name target"
  defines "k \<equiv> attempts_to t (trace w)"
  assumes cold: "circuits w t = None \<or> circuits w t = Some (CLOSED, 0, 0, 0)"
    and f0: "net w t k = Inl e0"
    and f1: "net w t (k + 1) = Inl e1"
    and f2: "net w t (k + 2) = Inl e2"
  shows "(net w t (k + 3) = Inr r \<longrightarrow>
            fst (send_message source target m 3 False w) = Inr (Delivered t r)
          \<and> attempts_to t (trace (snd (send_message source target m 3 False w))) = k + 4
          \<and> circuits (snd (send_message source target m 3 False w)) t = Some (CLOSED, 0, 0, 0))
       \<and> (net w t (k + 3) = Inl e3 \<longrightarrow>
            fst (send_message source target m 3 False w) = Inl e3
          \<and> attempts_to t (trace (snd (send_message source target m 3 False w))) = k + 4
          \<and> clock (snd (send_message source target m 3 False w)) = clock w + 7
          \<and> circuits (snd (send_message source target m 3 False w)) t
              = Some (OPEN, 4, clock w + 7, 0))
       \<and> fst (send_message source target m 2 False w) = Inl e2
       \<and> attempts_to t (trace (snd (send_message source target m 2 False w))) = k + 3
       \<and> circuits (snd (send_message source target m 2 False w)) t
           = Some (OPEN, 3, clock w + 3, 0)"
proof -
  have eq: "send_message source target m n False w
              = send_loop (normalize_name source) t m n 0 w" for n
    using cold unfolding t_def by (rule send_message_allowed)
  have delivered: "fst (send_loop s t m 3 0 w) = Inr (Delivered t r)
        \<and> attempts_to t (trace (snd (send_loop s t m 3 0 w))) = k + 4
        \<and> circuits (snd (send_loop s t m 3 0 w)) t = Some (CLOSED, 0, 0, 0)"
    if "net w t (k + 3) = Inr r" for s
    using that cold f0 f1 f2 unfolding k_def
    by (auto simp: send_loop_unfold numeral_3_eq_3)
  have refused: "fst (send_loop s t m 3 0 w) = Inl e3
        \<and> attempts_to t (trace (snd (send_loop s t m 3 0 w))) = k + 4
        \<and> clock (snd (send_loop s t m 3 0 w)) = clock w + 7
        \<and> circuits (snd (send_loop s t m 3 0 w)) t = Some (OPEN, 4, clock w + 7, 0)"
    if "net w t (k + 3) = Inl e3" for s
    using that cold f0 f1 f2 unfolding k_def
    by (auto simp: send_loop_unfold numeral_3_eq_3)
  have two: "fst (send_loop s t m 2 0 w) = Inl e2
        \<and> attempts_to t (trace (snd (send_loop s t m 2 0 w))) = k + 3
        \<and> circuits (snd (send_loop s t m 2 0 w)) t = Some (OPEN, 3, clock w + 3, 0)" for s
    using cold f0 f1 f2 unfolding k_def
    by (auto simp: send_loop_unfold numeral_2_eq_2)
  show ?thesis
    using delivered refused two by (simp add: eq)
qed

theorem send_message_retry_bound_witness:
  "circuits (quiet (down_for 3)) (normalize_name ''B'') = None
   \<and> net (quiet (down_for 3)) ''B'' 2 = Inl (Exc ''All connection attempts failed'')
   \<and> net (quiet (down_for 3)) ''B'' 3 = Inr ''ok''
   \<and> fst (send_message ''A'' ''B'' ''hello'' 3 False (quiet (down_for 3)))
       = Inr (Delivered ''B'' ''ok'')
   \<and> fst (send_message ''A'' ''B'' ''hello'' 2 False (quiet (down_for 3)))
       = Inl (Exc ''All connection attempts failed'')
   \<and> circuits (snd (send_message ''A'' ''B'' ''hello'' 2 False (quiet (down_for 3)))) ''B''
       = Some (OPEN, 3, 3, 0)"
  using send_message_retry_bound[where w = "quiet (down_for 3)" and target = "''B''"
      and source = "''A''" and m = "''hello''" and r = "''ok''"
      and ?e0.0 = "Exc ''All connection attempts failed''"
      and ?e1.0 = "Exc ''All connection attempts failed''"
      and ?e2.0 = "Exc ''All connection attempts failed''"]
  by (simp add: quiet_def down_for_def normalize_name_def)

text \<open>
  The claim as stated fails on \<^verbatim>\<open>send("A", "B", "hello")\<close> with \<open>retries = 3\<close> and \<open>B\<close>
  refusing three deliveries: the call does not raise but returns \<^verbatim>\<open>delivered\<close>, four
  deliveries were attempted, and the circuit of \<open>B\<close> ends \<open>CLOSED\<close>.
\<close>

theorem send_message_three_attempts_counterexample:
  "fst (send_message ''A'' ''B'' ''hello'' 3 False (quiet (down_for 3)))
     = Inr (Delivered ''B'' ''ok'')
   \<and> attempts_to ''B'' (trace (snd (send_message ''A'' ''B'' ''hello'' 3 False
        (quiet (down_for 3))))) = 4
   \<and> stored_state (circuits (snd (send_message ''A'' ''B'' ''hello'' 3 False
        (quiet (down_for 3))))) ''B'' = CLOSED"
  by (simp add: send_message_def normalize_name_def allow_request_def get_state_def
      quiet_def down_for_def Let_def send_loop.simps sleep_def stored_state_def
      record_failure_def record_success_def CIRCUIT_FAILURE_THRESHOLD_def)

text \<open>
  C10. When the circuit breaker does not allow a request to the (normalised) target,
  \<^verbatim>\<open>send_message\<close> returns the dictionary with status \<^verbatim>\<open>circuit_open\<close> naming the
  target and leaves the whole state as it was: no delivery is attempted, nothing sleeps,
  and the circuits are unchanged. \<^verbatim>\<open>send_request_with_handshake\<close> on the same state
  raises an exception, and only the record of the call is added to the trace.
\<close>

theorem circuit_open_gate:
  assumes blocked: "\<not> fst (allow_request (clock w) (normalize_name target) (circuits w))"
  shows "send_message source target m retries check_health w
           = (Inr (Circuit_open (normalize_name target)), w)
       \<and> delivery_status (Circuit_open (normalize_name target)) = ''circuit_open''
       \<and> delivery_agent (Circuit_open (normalize_name target)) = normalize_name target
       \<and> send_request_with_handshake source target payload correlation_id timeout w
           = (Inl (Exc (''Circuit breaker OPEN for '' @ normalize_name target)),
              w\<lparr>trace := trace w @ [Handshake target]\<rparr>)"
proof -
  obtain ok cs1
    where a: "allow_request (clock w) (normalize_name target) (circuits w) = (ok, cs1)"
    by (cases "allow_request (clock w) (normalize_name target) (circuits w)")
  have "\<not> ok"
    using blocked a by simp
  moreover have "cs1 = circuits w"
    using allow_request_blocked_unchanged[of "clock w" "normalize_name target" "circuits w"]
      a blocked
    by simp
  ultimately show ?thesis
    using a by (simp add: send_message_def send_request_with_handshake_def Let_def)
qed

theorem circuit_open_gate_witness:
  "\<not> fst (allow_request (clock tripped) (normalize_name ''medical_agent'') (circuits tripped))
   \<and> send_message ''fire-chief-agent'' ''medical_agent'' ''hello'' 3 False tripped
       = (Inr (Circuit_open ''medical-agent''), tripped)
   \<and> isl (fst (send_request_with_handshake ''fire-chief-agent'' ''medical_agent'' []
             None 30 tripped))"
  using circuit_open_gate[where w = tripped and target = "''medical_agent''"
     and source = "''fire-chief-agent''" and m = "''hello''" and retries = 3
     and check_health = False and payload = "[]" and correlation_id = None and timeout = 30]
  by (simp add: tripped_def quiet_def normalize_name_def allow_request_def get_state_def
      CIRCUIT_RESET_TIMEOUT_def)

subsection \<open>Facts about waiting for a resolution\<close>

lemma perform_resolves [simp]: "resolves (perform c w) = resolves w"
  by (auto simp: perform_def resolve_handshake_def update_handshake_record_def Let_def
      split: option.splits)

lemma perform_untouched:
  assumes "r_cid c \<noteq> cid"
  shows "handshakes (perform c w) cid = handshakes w cid"
    and "(cid \<in> pending_handshakes (perform c w)) = (cid \<in> pending_handshakes w)"
    and "future_results (perform c w) cid = future_results w cid"
  using assms
  by (auto simp: perform_def resolve_handshake_def update_handshake_record_def Let_def
      split: option.splits)

lemma run_resolves_untouched:
  assumes "\<forall>c\<in>set cs. r_cid c \<noteq> cid"
  shows "handshakes (run_resolves t cs w) cid = handshakes w cid
       \<and> (cid \<in> pending_handshakes (run_resolves t cs w)) = (cid \<in> pending_handshakes w)
       \<and> future_results (run_resolves t cs w) cid = future_results w cid
       \<and> set (resolves (run_resolves t cs w)) \<subseteq> set cs"
  using assms
proof (induction cs arbitrary: w)
  case Nil
  then show ?case by simp
next
  case (Cons c cs)
  then show ?case
    by (auto simp: perform_untouched)
qed

lemma sleep_untouched:
  assumes "\<forall>c\<in>set (resolves w). r_cid c \<noteq> cid"
  shows "handshakes (sleep d w) cid = handshakes w cid"
    and "(cid \<in> pending_handshakes (sleep d w)) = (cid \<in> pending_handshakes w)"
    and "future_results (sleep d w) cid = future_results w cid"
    and "set (resolves (sleep d w)) \<subseteq> set (resolves w)"
  using run_resolves_untouched[OF assms, of "clock w + d" w]
  by (auto simp: sleep_def Let_def)

lemma send_loop_none:
  assumes "\<not> (0 \<le> attempt \<and> attempt < retries + 1)"
  shows "send_loop s t m retries attempt w = (Inr Py_None, w)"
  using assms by (subst send_loop.simps) auto

lemma send_loop_untouched:
  assumes "\<forall>c\<in>set (resolves w). r_cid c \<noteq> cid"
  shows "handshakes (snd (send_loop s t m retries attempt w)) cid = handshakes w cid
       \<and> (cid \<in> pending_handshakes (snd (send_loop s t m retries attempt w)))
           = (cid \<in> pending_handshakes w)
       \<and> future_results (snd (send_loop s t m retries attempt w)) cid = future_results w cid
       \<and> set (resolves (snd (send_loop s t m retries attempt w))) \<subseteq> set (resolves w)
       \<and> db_up (snd (send_loop s t m retries attempt w)) = db_up w
       \<and> clock w \<le> clock (snd (send_loop s t m retries attempt w))"
  using assms
proof (induction s t m retries attempt w rule: send_loop.induct)
  case (1 s t m retries attempt w)
  show ?case
  proof (cases "0 \<le> attempt \<and> attempt < retries + 1")
    case False
    then show ?thesis by (simp add: send_loop_none)
  next
    case True
    note inrange = this
    show ?thesis
    proof (cases "net w t (attempts_to t (trace w))")
      case (Inr r)
      then show ?thesis using inrange
        by (simp add: send_loop_ok)
    next
      case (Inl e)
      show ?thesis
      proof (cases "attempt = retries")
        case True
        then show ?thesis using inrange Inl
          by (simp add: send_loop_last)
      next
        case False
        let ?w2 = "w\<lparr>trace := trace w @ [Attempt t m],
             circuits := record_failure (clock w) t (circuits w)\<rparr>"
        let ?d = "min 32 (2 ^ nat attempt) :: real"
        have un2: "\<forall>c\<in>set (resolves ?w2). r_cid c \<noteq> cid"
          using "1.prems" by simp
        define w3 where "w3 = sleep ?d ?w2"
        define w4 where "w4 = snd (send_loop s t m retries (attempt + 1) w3)"
        have sl: "handshakes w3 cid = handshakes w cid"
          "(cid \<in> pending_handshakes w3) = (cid \<in> pending_handshakes w)"
          "future_results w3 cid = future_results w cid"
          "set (resolves w3) \<subseteq> set (resolves w)"
          "db_up w3 = db_up w" "clock w3 = clock w + ?d"
          using sleep_untouched[OF un2, of ?d] by (simp_all add: w3_def)
        have un3: "\<forall>c\<in>set (resolves w3). r_cid c \<noteq> cid"
          using sl(4) "1.prems" by auto
        have step: "send_loop s t m retries attempt w
                     = send_loop s t m retries (attempt + 1) w3"
          using inrange Inl False by (simp add: send_loop_retry w3_def)
        have ih: "handshakes w4 cid = handshakes w3 cid"
          "(cid \<in> pending_handshakes w4) = (cid \<in> pending_handshakes w3)"
          "future_results w4 cid = future_results w3 cid"
          "set (resolves w4) \<subseteq> set (resolves w3)"
          "db_up w4 = db_up w3" "clock w3 \<le> clock w4"
          using "1.IH"[OF inrange refl refl Inl refl False] un3
          by (simp_all add: w3_def w4_def)
        have d0: "0 \<le> ?d" by simp
        have "clock w \<le> clock w4"
          using ih(6) sl(6) d0 by linarith
        then show ?thesis
          unfolding step w4_def[symmetric]
          using ih sl by auto
      qed
    qed
  qed
qed

lemma send_message_untouched:
  assumes "\<forall>c\<in>set (resolves w). r_cid c \<noteq> cid"
  shows "handshakes (snd (send_message s t m retries hc w)) cid = handshakes w cid
       \<and> (cid \<in> pending_handshakes (snd (send_message s t m retries hc w)))
           = (cid \<in> pending_handshakes w)
       \<and> future_results (snd (send_message s t m retries hc w)) cid = future_results w cid
       \<and> set (resolves (snd (send_message s t m retries hc w))) \<subseteq> set (resolves w)
       \<and> db_up (snd (send_message s t m retries hc w)) = db_up w
       \<and> clock w \<le> clock (snd (send_message s t m retries hc w))"
proof -
  obtain ok cs1 where a: "allow_request (clock w) (normalize_name t) (circuits w) = (ok, cs1)"
    by (cases "allow_request (clock w) (normalize_name t) (circuits w)")
  have un: "\<forall>c\<in>set (resolves (w\<lparr>circuits := cs1\<rparr>)). r_cid c \<noteq> cid"
    using assms by simp
  show ?thesis
    using send_loop_untouched[OF un, of "normalize_name s" "normalize_name t" m retries 0] a
    by (simp add: send_message_def Let_def)
qed

declare poll_loop.simps [simp del]

lemma poll_loop_unresolved:
  assumes "\<forall>c\<in>set (resolves w). r_cid c \<noteq> cid"
    and "\<forall>r. handshakes w cid \<noteq> Some (''COMPLETED'', r)"
    and "clock w - start < of_int timeout + 1"
  shows "fst (poll_loop cid timeout start w) = None
       \<and> handshakes (snd (poll_loop cid timeout start w)) cid = None
       \<and> (cid \<in> pending_handshakes (snd (poll_loop cid timeout start w)))
           = (cid \<in> pending_handshakes w)
       \<and> circuits (snd (poll_loop cid timeout start w)) = circuits w
       \<and> attempts_to a (trace (snd (poll_loop cid timeout start w))) = attempts_to a (trace w)
       \<and> start + of_int timeout \<le> clock (snd (poll_loop cid timeout start w))
       \<and> clock (snd (poll_loop cid timeout start w)) < start + of_int timeout + 1"
  using assms
proof (induction cid timeout start w rule: poll_loop.induct)
  case (1 cid timeout start w)
  show ?case
  proof (cases "clock w - start < of_int timeout")
    case False
    then show ?thesis
      using "1.prems"(3) by (subst poll_loop.simps) (simp add: poll_loop.simps)
  next
    case True
    define w1 where "w1 = sleep 1 w"
    have step: "poll_loop cid timeout start w = poll_loop cid timeout start w1"
      using True "1.prems"(2)
      by (subst poll_loop.simps) (auto simp: w1_def split: option.splits)
    have sl: "handshakes w1 cid = handshakes w cid"
      "(cid \<in> pending_handshakes w1) = (cid \<in> pending_handshakes w)"
      "set (resolves w1) \<subseteq> set (resolves w)" "clock w1 = clock w + 1"
      "circuits w1 = circuits w" "trace w1 = trace w @ [Sleep 1]"
      using sleep_untouched[OF "1.prems"(1), of 1] by (simp_all add: w1_def)
    have un1: "\<forall>c\<in>set (resolves w1). r_cid c \<noteq> cid"
      using sl(3) "1.prems"(1) by auto
    have nc1: "\<forall>r. handshakes w1 cid \<noteq> Some (''COMPLETED'', r)"
      using sl(1) "1.prems"(2) by simp
    have t1: "clock w1 - start < of_int timeout + 1"
      using sl(4) True by simp
    have ih: "fst (poll_loop cid timeout start w1) = None
       \<and> handshakes (snd (poll_loop cid timeout start w1)) cid = None
       \<and> (cid \<in> pending_handshakes (snd (poll_loop cid timeout start w1)))
           = (cid \<in> pending_handshakes w1)
       \<and> circuits (snd (poll_loop cid timeout start w1)) = circuits w1
       \<and> attempts_to a (trace (snd (poll_loop cid timeout start w1))) = attempts_to a (trace w1)
       \<and> start + of_int timeout \<le> clock (snd (poll_loop cid timeout start w1))
       \<and> clock (snd (poll_loop cid timeout start w1)) < start + of_int timeout + 1"
    proof (cases "handshakes w cid")
      case None
      show ?thesis
        using "1.IH"(1)[OF True None, folded w1_def, OF un1 nc1 t1] .
    next
      case (Some row)
      obtain st res where row: "row = (st, res)" by (cases row)
      have "st \<noteq> ''COMPLETED''" using "1.prems"(2) Some row by auto
      then show ?thesis
        using "1.IH"(2)[OF True Some row[symmetric], folded w1_def, OF _ un1 nc1 t1] by simp
    qed
    show ?thesis
      unfolding step using ih sl by simp
  qed
qed

lemma await_future_unresolved:
  assumes "\<forall>c\<in>set cs. r_cid c \<noteq> cid" and "future_results w cid = None"
  shows "fst (await_future cid deadline cs w) = None
       \<and> handshakes (snd (await_future cid deadline cs w)) cid = handshakes w cid
       \<and> (cid \<in> pending_handshakes (snd (await_future cid deadline cs w)))
           = (cid \<in> pending_handshakes w)
       \<and> circuits (snd (await_future cid deadline cs w)) = circuits w
       \<and> trace (snd (await_future cid deadline cs w)) = trace w
       \<and> clock (snd (await_future cid deadline cs w)) = max (clock w) deadline"
  using assms
proof (induction cs arbitrary: w)
  case Nil
  then show ?case by simp
next
  case (Cons c cs)
  show ?case
  proof (cases "at_time c < deadline")
    case False
    then show ?thesis by simp
  next
    case True
    define w1 where "w1 = perform c (w\<lparr>clock := max (clock w) (at_time c), resolves := cs\<rparr>)"
    have other: "r_cid c \<noteq> cid" using Cons.prems(1) by simp
    have f1: "future_results w1 cid = None" "handshakes w1 cid = handshakes w cid"
      "(cid \<in> pending_handshakes w1) = (cid \<in> pending_handshakes w)"
      "circuits w1 = circuits w" "trace w1 = trace w" "clock w1 = max (clock w) (at_time c)"
      using perform_untouched[OF other] Cons.prems(2) by (simp_all add: w1_def)
    have ih: "fst (await_future cid deadline cs w1) = None
       \<and> handshakes (snd (await_future cid deadline cs w1)) cid = handshakes w1 cid
       \<and> (cid \<in> pending_handshakes (snd (await_future cid deadline cs w1)))
           = (cid \<in> pending_handshakes w1)
       \<and> circuits (snd (await_future cid deadline cs w1)) = circuits w1
       \<and> trace (snd (await_future cid deadline cs w1)) = trace w1
       \<and> clock (snd (await_future cid deadline cs w1)) = max (clock w1) deadline"
      using Cons.IH[of w1] Cons.prems(1) f1(1) by simp
    have "await_future cid deadline (c # cs) w = await_future cid deadline cs w1"
      using True f1(1) by (simp add: w1_def Let_def)
    then show ?thesis
      using ih f1 True by auto
  qed
qed

lemma normalize_name_idem [simp]: "normalize_name (normalize_name n) = normalize_name n"
  by (simp add: normalize_name_def)

lemma run_resolves_before:
  assumes "\<forall>c\<in>set pre. r_cid c \<noteq> cid" and "t < at_time c0"
  shows "\<exists>pre'. resolves (run_resolves t (pre @ c0 # post) w) = pre' @ c0 # post
           \<and> set pre' \<subseteq> set pre"
    and "handshakes (run_resolves t (pre @ c0 # post) w) cid = handshakes w cid"
    and "db_up (run_resolves t (pre @ c0 # post) w) = db_up w"
  using assms
proof (induction pre arbitrary: w)
  case Nil
  { case 1 then show ?case by simp }
  { case 2 then show ?case by simp }
  { case 3 then show ?case by simp }
next
  case (Cons c pre)
  { case 1
    show ?case
    proof (cases "at_time c \<le> t")
      case True
      obtain pre' where "resolves (run_resolves t (pre @ c0 # post) (perform c w)) = pre' @ c0 # post"
        "set pre' \<subseteq> set pre"
        using Cons.IH(1)[of "perform c w"] 1 by auto
      then show ?thesis using True by auto
    next
      case False
      then show ?thesis by (intro exI[of _ "c # pre"]) simp
    qed }
  { case 2
    then show ?case
      using Cons.IH(2)[of "perform c w"] by (simp add: perform_untouched) }
  { case 3
    then show ?case by simp }
qed

lemma run_resolves_due:
  assumes "\<forall>c\<in>set pre. r_cid c \<noteq> cid \<and> at_time c \<le> t"
    and "\<forall>c\<in>set post. r_cid c \<noteq> cid"
    and "at_time c0 \<le> t" and "r_cid c0 = cid"
    and "handshakes w cid = Some row" and "db_up w"
  shows "handshakes (run_resolves t (pre @ c0 # post) w) cid
           = Some (''COMPLETED'', Some (r_result c0))"
  using assms
proof (induction pre arbitrary: w)
  case Nil
  have "handshakes (perform c0 w) cid = Some (''COMPLETED'', Some (r_result c0))"
    using Nil.prems(4,5,6)
    by (auto simp: perform_def resolve_handshake_def update_handshake_record_def Let_def)
  then show ?case
    using Nil.prems(3) run_resolves_untouched[OF Nil.prems(2), of t "perform c0 w"] by simp
next
  case (Cons c pre)
  have "handshakes (perform c w) cid = Some row" "db_up (perform c w)"
    using Cons.prems by (simp_all add: perform_untouched)
  then show ?case
    using Cons.IH[of "perform c w"] Cons.prems by simp
qed

lemma poll_loop_resolved:
  assumes "resolves w = pre @ c0 # post"
    and "\<forall>c\<in>set pre. r_cid c \<noteq> cid \<and> at_time c \<le> at_time c0"
    and "\<forall>c\<in>set post. r_cid c \<noteq> cid"
    and "r_cid c0 = cid"
    and "handshakes w cid = Some (''PENDING'', None)" and "db_up w"
    and "clock w < at_time c0" and "at_time c0 \<le> start + of_int timeout - 1"
  shows "fst (poll_loop cid timeout start w) = Some (r_result c0)
       \<and> handshakes (snd (poll_loop cid timeout start w)) cid = None
       \<and> circuits (snd (poll_loop cid timeout start w)) = circuits w
       \<and> clock (snd (poll_loop cid timeout start w)) < at_time c0 + 1
       \<and> at_time c0 \<le> clock (snd (poll_loop cid timeout start w))"
  using assms
proof (induction cid timeout start w arbitrary: pre rule: poll_loop.induct)
  case (1 cid timeout start w)
  have inloop: "clock w - start < of_int timeout"
    using "1.prems"(7,8) by linarith
  define w1 where "w1 = sleep 1 w"
  have step: "poll_loop cid timeout start w = poll_loop cid timeout start w1"
    using inloop "1.prems"(5) by (subst poll_loop.simps) (simp add: w1_def)
  have base: "clock w1 = clock w + 1" "circuits w1 = circuits w" "db_up w1 = db_up w"
    by (simp_all add: w1_def)
  have other: "\<forall>c\<in>set pre. r_cid c \<noteq> cid"
    using "1.prems"(2) by simp
  show ?case
  proof (cases "at_time c0 \<le> clock w + 1")
    case True
    have due: "\<forall>c\<in>set pre. r_cid c \<noteq> cid \<and> at_time c \<le> clock w + 1"
      using "1.prems"(2) True by auto
    have row1: "handshakes w1 cid = Some (''COMPLETED'', Some (r_result c0))"
      using run_resolves_due[OF due "1.prems"(3) True "1.prems"(4) "1.prems"(5) "1.prems"(6)]
      by (simp add: w1_def sleep_def Let_def "1.prems"(1))
    have in1: "clock w1 - start < of_int timeout"
      using base(1) "1.prems"(7,8) by linarith
    have "poll_loop cid timeout start w1
            = (Some (r_result c0), w1\<lparr>handshakes := (handshakes w1)(cid := None)\<rparr>)"
      using in1 row1 by (subst poll_loop.simps) simp
    then show ?thesis
      unfolding step using base True "1.prems"(7) by simp
  next
    case False
    then have early: "clock w + 1 < at_time c0" by simp
    obtain pre' where sch: "resolves w1 = pre' @ c0 # post" "set pre' \<subseteq> set pre"
      using run_resolves_before(1)[OF other early, of post w]
      by (auto simp: w1_def sleep_def Let_def "1.prems"(1))
    have row1: "handshakes w1 cid = Some (''PENDING'', None)"
      using run_resolves_before(2)[OF other early, of post w] "1.prems"(5)
      by (simp add: w1_def sleep_def Let_def "1.prems"(1))
    have pre1: "\<forall>c\<in>set pre'. r_cid c \<noteq> cid \<and> at_time c \<le> at_time c0"
      using sch(2) "1.prems"(2) by auto
    have ih: "fst (poll_loop cid timeout start w1) = Some (r_result c0)
       \<and> handshakes (snd (poll_loop cid timeout start w1)) cid = None
       \<and> circuits (snd (poll_loop cid timeout start w1)) = circuits w1
       \<and> clock (snd (poll_loop cid timeout start w1)) < at_time c0 + 1
       \<and> at_time c0 \<le> clock (snd (poll_loop cid timeout start w1))"
      using "1.IH"(2)[OF inloop "1.prems"(5) refl, of pre'] sch(1) pre1 "1.prems"(3,4)
        row1 base early "1.prems"(6,8)
      by (simp add: w1_def)
    show ?thesis
      unfolding step using ih base by simp
  qed
qed

lemma await_future_resolved:
  assumes "\<forall>c\<in>set pre. r_cid c \<noteq> cid \<and> at_time c \<le> at_time c0"
    and "in_process c0" and "r_cid c0 = cid" and "at_time c0 < deadline"
    and "cid \<in> pending_handshakes w" and "future_results w cid = None"
    and "clock w \<le> at_time c0"
  shows "fst (await_future cid deadline (pre @ c0 # post) w) = Some (r_result c0)
       \<and> circuits (snd (await_future cid deadline (pre @ c0 # post) w)) = circuits w
       \<and> clock (snd (await_future cid deadline (pre @ c0 # post) w)) = at_time c0"
  using assms
proof (induction pre arbitrary: w)
  case Nil
  then show ?case
    by (auto simp: perform_def resolve_handshake_def update_handshake_record_def Let_def
        split: option.splits)
next
  case (Cons c pre)
  define w1 where "w1 = perform c (w\<lparr>clock := max (clock w) (at_time c), resolves := pre @ c0 # post\<rparr>)"
  have other: "r_cid c \<noteq> cid" and early: "at_time c < deadline" "at_time c \<le> at_time c0"
    using Cons.prems(1,4) by auto
  have f1: "future_results w1 cid = None" "cid \<in> pending_handshakes w1"
    "circuits w1 = circuits w" "clock w1 \<le> at_time c0"
    using perform_untouched[OF other] Cons.prems(5,6,7) early by (simp_all add: w1_def)
  have step: "await_future cid deadline ((c # pre) @ c0 # post) w
                = await_future cid deadline (pre @ c0 # post) w1"
    using early f1(1) by (simp add: w1_def Let_def)
  show ?case
    unfolding step
    using Cons.IH[of w1] Cons.prems(1,2,3,4) f1 by simp
qed

lemma handshake_after_send:
  fixes w :: world and target cid :: string
  defines "t \<equiv> normalize_name target"
  defines "w2 \<equiv> snd (create_handshake_record cid
                    (w\<lparr>trace := trace w @ [Handshake target],
                       circuits := snd (allow_request (clock w) t (circuits w))\<rparr>))"
  defines "w3 \<equiv> w2\<lparr>pending_handshakes := insert cid (pending_handshakes w2),
                     future_results := (future_results w2)(cid := None)\<rparr>"
  assumes gate: "fst (allow_request (clock w) t (circuits w))"
    and sent: "send_message source t (handshake_envelope source payload cid) 3 False w3
                 = (Inr d, w4)"
    and cid: "cid \<noteq> []"
  shows "send_request_with_handshake source target payload (Some cid) timeout w =
     (if db_up w then
        (case poll_handshake_result cid timeout w4 of (result, w5) \<Rightarrow>
           (case result of
              None \<Rightarrow> handshake_failed AsyncioTimeoutError t cid timeout w5
            | Some r \<Rightarrow> if r = [] then handshake_failed AsyncioTimeoutError t cid timeout w5
                        else (Inr r, w5\<lparr>circuits := record_success t (circuits w5),
                                pending_handshakes := pending_handshakes w5 - {cid}\<rparr>)))
      else (case wait_for cid timeout w4 of
              (None, w5) \<Rightarrow> handshake_failed AsyncioTimeoutError t cid timeout w5
            | (Some r, w5) \<Rightarrow> (Inr r, w5\<lparr>circuits := record_success t (circuits w5)\<rparr>)))"
proof -
  obtain cs1 where a: "allow_request (clock w) t (circuits w) = (True, cs1)"
    using gate by (cases "allow_request (clock w) t (circuits w)") auto
  have rec: "create_handshake_record cid
               (w\<lparr>trace := trace w @ [Handshake target], circuits := cs1\<rparr>) = (db_up w, w2)"
    using a by (simp add: w2_def create_handshake_record_def)
  show ?thesis
    using a rec sent cid
    by (simp add: send_request_with_handshake_def Let_def t_def[symmetric] w3_def[symmetric])
qed

text \<open>
  C8. A handshake request passes the gate and its message is sent without an exception
  (whatever \<^verbatim>\<open>send_message\<close> returned), no resolution for its correlation id is ever
  posted, and the timeout is not negative. Then the call raises the exception
  \<^verbatim>\<open>Agent <target> did not respond within <timeout>s\<close>; with a database the row of the
  correlation id is gone afterwards, the waiter is removed from \<^verbatim>\<open>_pending_handshakes\<close>,
  the circuits are those after the send with one failure recorded for the target at the
  time of the raise, no delivery was attempted while waiting, and the raise comes at least
  \<open>timeout\<close> and less than \<open>timeout + 1\<close> seconds after the wait began.
\<close>

theorem handshake_timeout_cleanup:
  fixes w :: world and source target cid :: string and payload :: jdict and timeout :: int
  defines "t \<equiv> normalize_name target"
  defines "w2 \<equiv> snd (create_handshake_record cid
                    (w\<lparr>trace := trace w @ [Handshake target],
                       circuits := snd (allow_request (clock w) t (circuits w))\<rparr>))"
  defines "w3 \<equiv> w2\<lparr>pending_handshakes := insert cid (pending_handshakes w2),
                     future_results := (future_results w2)(cid := None)\<rparr>"
  defines "sent \<equiv> send_message source t (handshake_envelope source payload cid) 3 False w3"
  defines "out \<equiv> send_request_with_handshake source target payload (Some cid) timeout w"
  assumes gate: "fst (allow_request (clock w) t (circuits w))"
    and delivered: "\<not> isl (fst sent)"
    and unresolved: "\<forall>c\<in>set (resolves w). r_cid c \<noteq> cid"
    and cid: "cid \<noteq> []" and timeout: "0 \<le> timeout"
  shows "fst out = Inl (Exc (''Agent '' @ t @ '' did not respond within ''
                              @ str_int timeout @ ''s''))
       \<and> (db_up w \<longrightarrow> handshakes (snd out) cid = None)
       \<and> cid \<notin> pending_handshakes (snd out)
       \<and> circuits (snd out) = record_failure (clock (snd out)) t (circuits (snd sent))
       \<and> attempts_to a (trace (snd out)) = attempts_to a (trace (snd sent))
       \<and> clock (snd sent) + of_int timeout \<le> clock (snd out)
       \<and> clock (snd out) < clock (snd sent) + of_int timeout + 1"
proof -
  obtain d w4 where sent_eq: "sent = (Inr d, w4)"
    using delivered by (cases sent; cases "fst sent") auto
  have un3: "\<forall>c\<in>set (resolves w3). r_cid c \<noteq> cid"
    using unresolved by (simp add: w3_def w2_def create_handshake_record_def)
  have s4: "handshakes w4 cid = handshakes w3 cid"
    "(cid \<in> pending_handshakes w4) = (cid \<in> pending_handshakes w3)"
    "future_results w4 cid = future_results w3 cid"
    "set (resolves w4) \<subseteq> set (resolves w3)" "db_up w4 = db_up w3"
    using send_message_untouched[OF un3, of source t "handshake_envelope source payload cid"
        3 False] sent_eq
    by (simp_all add: sent_def)
  have un4: "\<forall>c\<in>set (resolves w4). r_cid c \<noteq> cid"
    using un3 s4(4) by auto
  have fut4: "future_results w4 cid = None"
    using s4(3) by (simp add: w3_def)
  have db4: "db_up w4 = db_up w"
    using s4(5) by (simp add: w3_def w2_def create_handshake_record_def)
  note out_eq = handshake_after_send[OF gate[unfolded t_def]
      sent_eq[unfolded sent_def w3_def w2_def t_def] cid, of timeout, folded t_def out_def]
  show ?thesis
  proof (cases "db_up w")
    case True
    have row: "\<forall>r. handshakes w4 cid \<noteq> Some (''COMPLETED'', r)"
      using s4(1) True by (simp add: w3_def w2_def create_handshake_record_def)
    obtain res w5 where p: "poll_loop cid timeout (clock w4) w4 = (res, w5)"
      by (cases "poll_loop cid timeout (clock w4) w4")
    have pl: "res = None" "handshakes w5 cid = None"
      "(cid \<in> pending_handshakes w5) = (cid \<in> pending_handshakes w4)"
      "circuits w5 = circuits w4" "attempts_to a (trace w5) = attempts_to a (trace w4)"
      "clock w4 + of_int timeout \<le> clock w5" "clock w5 < clock w4 + of_int timeout + 1"
      using poll_loop_unresolved[OF un4 row, of "clock w4" timeout a] timeout p by simp_all
    show ?thesis
      using True pl p db4 sent_eq
      by (simp add: out_eq poll_handshake_result_def handshake_failed_def Let_def)
  next
    case False
    obtain res w5
      where p: "await_future cid (clock w4 + of_int timeout) (resolves w4) w4 = (res, w5)"
      by (cases "await_future cid (clock w4 + of_int timeout) (resolves w4) w4")
    have pl: "res = None"
      "(cid \<in> pending_handshakes w5) = (cid \<in> pending_handshakes w4)"
      "circuits w5 = circuits w4" "trace w5 = trace w4"
      "clock w5 = max (clock w4) (clock w4 + of_int timeout)"
      using await_future_unresolved[OF un4 fut4, of "clock w4 + of_int timeout"] p by simp_all
    show ?thesis
      using False pl p fut4 sent_eq timeout
      by (simp add: out_eq wait_for_def handshake_failed_def Let_def max_def)
  qed
qed

lemmas handshake_eval =
  send_request_with_handshake_def send_message_def allow_request_def get_state_def
  create_handshake_record_def normalize_name_def send_loop.simps poll_handshake_result_def
  poll_loop.simps sleep_def handshake_failed_def str_int_def str_nat.simps
  record_failure_def record_success_def quiet_def down_for_def Let_def
  perform_def resolve_handshake_def update_handshake_record_def wait_for_def
  CIRCUIT_FAILURE_THRESHOLD_def

theorem handshake_timeout_cleanup_witness:
  "fst (allow_request 0 ''medical'' Map.empty)
   \<and> fst (send_request_with_handshake ''fire'' ''medical'' [(''action'', ''triage'')]
            (Some ''cid-1'') 5 (quiet (down_for 0)))
       = Inl (Exc ''Agent medical did not respond within 5s'')
   \<and> handshakes (snd (send_request_with_handshake ''fire'' ''medical'' [(''action'', ''triage'')]
            (Some ''cid-1'') 5 (quiet (down_for 0)))) ''cid-1'' = None
   \<and> clock (snd (send_request_with_handshake ''fire'' ''medical'' [(''action'', ''triage'')]
            (Some ''cid-1'') 5 (quiet (down_for 0)))) = 5
   \<and> circuits (snd (send_request_with_handshake ''fire'' ''medical'' [(''action'', ''triage'')]
            (Some ''cid-1'') 5 (quiet (down_for 0)))) ''medical'' = Some (CLOSED, 1, 5, 0)"
  using handshake_timeout_cleanup[where w = "quiet (down_for 0)" and source = "''fire''"
      and target = "''medical''" and cid = "''cid-1''" and payload = "[(''action'', ''triage'')]"
      and timeout = 5 and a = "''medical''"]
  by (simp add: handshake_eval)

lemma send_loop_frame:
  "db_up (snd (send_loop s t m retries attempt w)) = db_up w
   \<and> delegation_logs (snd (send_loop s t m retries attempt w)) = delegation_logs w
   \<and> net (snd (send_loop s t m retries attempt w)) = net w
   \<and> next_uuid (snd (send_loop s t m retries attempt w)) = next_uuid w"
proof (induction s t m retries attempt w rule: send_loop.induct)
  case (1 s t m retries attempt w)
  show ?case
  proof (cases "0 \<le> attempt \<and> attempt < retries + 1")
    case False
    then show ?thesis by (simp add: send_loop_none)
  next
    case True
    note inrange = this
    show ?thesis
    proof (cases "net w t (attempts_to t (trace w))")
      case (Inr r)
      then show ?thesis using inrange by (simp add: send_loop_ok)
    next
      case (Inl e)
      show ?thesis
      proof (cases "attempt = retries")
        case True
        then show ?thesis using inrange Inl by (simp add: send_loop_last)
      next
        case False
        show ?thesis
          using "1.IH"[OF inrange refl refl Inl refl False] inrange Inl False
          by (simp add: send_loop_retry)
      qed
    qed
  qed
qed

lemma send_message_frame:
  "db_up (snd (send_message s t m retries hc w)) = db_up w
   \<and> delegation_logs (snd (send_message s t m retries hc w)) = delegation_logs w
   \<and> net (snd (send_message s t m retries hc w)) = net w
   \<and> next_uuid (snd (send_message s t m retries hc w)) = next_uuid w"
  using send_loop_frame[of "normalize_name s" "normalize_name t" m retries 0]
  by (auto simp: send_message_def Let_def split: prod.splits)

text \<open>
  What a handshake request returns when its message is sent without an exception. (a) With
  a database and the row still pending when the wait begins: if the only resolution for the
  correlation id is posted after the wait began and at most \<open>timeout - 1\<close> seconds after
  it (no later than the last poll), with a result that is not empty, the call returns
  exactly that result, deletes the row and records a success. (b) Without a database: if a
  resolution by this process comes before the timeout, the call returns exactly its
  result. (c) If no resolution is ever posted, the call raises the timeout exception at
  least \<open>timeout\<close> and less than \<open>timeout + 1\<close> seconds after the wait began.
\<close>

theorem handshake_request_response:
  fixes w :: world and source target cid :: string and payload :: jdict and timeout :: int
  defines "t \<equiv> normalize_name target"
  defines "w2 \<equiv> snd (create_handshake_record cid
                    (w\<lparr>trace := trace w @ [Handshake target],
                       circuits := snd (allow_request (clock w) t (circuits w))\<rparr>))"
  defines "w3 \<equiv> w2\<lparr>pending_handshakes := insert cid (pending_handshakes w2),
                     future_results := (future_results w2)(cid := None)\<rparr>"
  defines "sent \<equiv> send_message source t (handshake_envelope source payload cid) 3 False w3"
  defines "out \<equiv> send_request_with_handshake source target payload (Some cid) timeout w"
  assumes gate: "fst (allow_request (clock w) t (circuits w))"
    and delivered: "\<not> isl (fst sent)"
    and cid: "cid \<noteq> []"
  shows "(db_up w \<and> handshakes (snd sent) cid = Some (''PENDING'', None)
          \<and> resolves (snd sent) = pre @ c0 # post
          \<and> (\<forall>c\<in>set pre. r_cid c \<noteq> cid \<and> at_time c \<le> at_time c0)
          \<and> (\<forall>c\<in>set post. r_cid c \<noteq> cid)
          \<and> r_cid c0 = cid \<and> r_result c0 \<noteq> []
          \<and> clock (snd sent) < at_time c0
          \<and> at_time c0 \<le> clock (snd sent) + of_int timeout - 1
          \<longrightarrow> fst out = Inr (r_result c0)
              \<and> handshakes (snd out) cid = None
              \<and> circuits (snd out) = record_success t (circuits (snd sent)))
       \<and> (\<not> db_up w \<and> cid \<in> pending_handshakes (snd sent)
          \<and> future_results (snd sent) cid = None
          \<and> resolves (snd sent) = pre @ c0 # post
          \<and> (\<forall>c\<in>set pre. r_cid c \<noteq> cid \<and> at_time c \<le> at_time c0)
          \<and> r_cid c0 = cid \<and> in_process c0
          \<and> clock (snd sent) \<le> at_time c0
          \<and> at_time c0 < clock (snd sent) + of_int timeout
          \<longrightarrow> fst out = Inr (r_result c0)
              \<and> circuits (snd out) = record_success t (circuits (snd sent)))
       \<and> ((\<forall>c\<in>set (resolves w). r_cid c \<noteq> cid) \<and> 0 \<le> timeout
          \<longrightarrow> fst out = Inl (Exc (''Agent '' @ t @ '' did not respond within ''
                                     @ str_int timeout @ ''s''))
              \<and> clock (snd sent) + of_int timeout \<le> clock (snd out)
              \<and> clock (snd out) < clock (snd sent) + of_int timeout + 1)"
proof -
  obtain d w4 where sent_eq: "sent = (Inr d, w4)"
    using delivered by (cases sent; cases "fst sent") auto
  note out_eq = handshake_after_send[OF gate[unfolded t_def]
      sent_eq[unfolded sent_def w3_def w2_def t_def] cid, of timeout, folded t_def out_def]
  have polled: "fst out = Inr (r_result c0) \<and> handshakes (snd out) cid = None
        \<and> circuits (snd out) = record_success t (circuits (snd sent))"
    if db: "db_up w" and row: "handshakes w4 cid = Some (''PENDING'', None)"
      and sch: "resolves w4 = pre @ c0 # post"
      and pre: "\<forall>c\<in>set pre. r_cid c \<noteq> cid \<and> at_time c \<le> at_time c0"
      and post: "\<forall>c\<in>set post. r_cid c \<noteq> cid"
      and c0: "r_cid c0 = cid" "r_result c0 \<noteq> []"
      and after: "clock w4 < at_time c0"
      and intime: "at_time c0 \<le> clock w4 + of_int timeout - 1"
  proof -
    have db4: "db_up w4"
      using send_message_frame[of source t "handshake_envelope source payload cid" 3 False w3]
        sent_eq db
      by (simp add: sent_def w3_def w2_def create_handshake_record_def)
    obtain res w5 where p: "poll_loop cid timeout (clock w4) w4 = (res, w5)"
      by (cases "poll_loop cid timeout (clock w4) w4")
    have "res = Some (r_result c0)" "handshakes w5 cid = None" "circuits w5 = circuits w4"
      using poll_loop_resolved[OF sch pre post c0(1) row db4 after intime] p by simp_all
    then show ?thesis
      using db db4 p c0(2) sent_eq
      by (simp add: out_eq poll_handshake_result_def)
  qed
  have awaited: "fst out = Inr (r_result c0)
        \<and> circuits (snd out) = record_success t (circuits (snd sent))"
    if db: "\<not> db_up w" and pend: "cid \<in> pending_handshakes w4"
      and fut: "future_results w4 cid = None"
      and sch: "resolves w4 = pre @ c0 # post"
      and pre: "\<forall>c\<in>set pre. r_cid c \<noteq> cid \<and> at_time c \<le> at_time c0"
      and c0: "r_cid c0 = cid" "in_process c0"
      and after: "clock w4 \<le> at_time c0"
      and intime: "at_time c0 < clock w4 + of_int timeout"
  proof -
    obtain res w5
      where p: "await_future cid (clock w4 + of_int timeout) (pre @ c0 # post) w4 = (res, w5)"
      by (cases "await_future cid (clock w4 + of_int timeout) (pre @ c0 # post) w4")
    have "res = Some (r_result c0)" "circuits w5 = circuits w4"
      using await_future_resolved[OF pre c0(2) c0(1) intime pend fut after, of post] p
      by simp_all
    then show ?thesis
      using db p fut sch sent_eq by (simp add: out_eq wait_for_def)
  qed
  have timed_out: "fst out = Inl (Exc (''Agent '' @ t @ '' did not respond within ''
                                     @ str_int timeout @ ''s''))
        \<and> clock (snd sent) + of_int timeout \<le> clock (snd out)
        \<and> clock (snd out) < clock (snd sent) + of_int timeout + 1"
    if un: "\<forall>c\<in>set (resolves w). r_cid c \<noteq> cid" and timeout: "0 \<le> timeout"
  proof -
    have un3: "\<forall>c\<in>set (resolves w3). r_cid c \<noteq> cid"
      using un by (simp add: w3_def w2_def create_handshake_record_def)
    have s4: "handshakes w4 cid = handshakes w3 cid"
      "future_results w4 cid = future_results w3 cid"
      "set (resolves w4) \<subseteq> set (resolves w3)" "db_up w4 = db_up w3"
      using send_message_untouched[OF un3, of source t "handshake_envelope source payload cid"
          3 False] sent_eq
      by (simp_all add: sent_def)
    have un4: "\<forall>c\<in>set (resolves w4). r_cid c \<noteq> cid"
      using un3 s4(3) by auto
    have fut4: "future_results w4 cid = None"
      using s4(2) by (simp add: w3_def)
    have db4: "db_up w4 = db_up w"
      using s4(4) by (simp add: w3_def w2_def create_handshake_record_def)
    show ?thesis
    proof (cases "db_up w")
      case True
      have row: "\<forall>r. handshakes w4 cid \<noteq> Some (''COMPLETED'', r)"
        using s4(1) True by (simp add: w3_def w2_def create_handshake_record_def)
      obtain res w5 where p: "poll_loop cid timeout (clock w4) w4 = (res, w5)"
        by (cases "poll_loop cid timeout (clock w4) w4")
      have "res = None"
        "clock w4 + of_int timeout \<le> clock w5" "clock w5 < clock w4 + of_int timeout + 1"
        using poll_loop_unresolved[OF un4 row, of "clock w4" timeout "[]"] timeout p
        by simp_all
      then show ?thesis
        using True p db4 sent_eq
        by (simp add: out_eq poll_handshake_result_def handshake_failed_def Let_def)
    next
      case False
      obtain res w5
        where p: "await_future cid (clock w4 + of_int timeout) (resolves w4) w4 = (res, w5)"
        by (cases "await_future cid (clock w4 + of_int timeout) (resolves w4) w4")
      have "res = None" "clock w5 = max (clock w4) (clock w4 + of_int timeout)"
        using await_future_unresolved[OF un4 fut4, of "clock w4 + of_int timeout"] p
        by simp_all
      then show ?thesis
        using False p fut4 sent_eq timeout
        by (simp add: out_eq wait_for_def handshake_failed_def Let_def max_def)
    qed
  qed
  show ?thesis
    using polled awaited timed_out sent_eq by simp
qed

theorem handshake_request_response_witness:
  "fst (allow_request 0 ''medical'' Map.empty)
   \<and> fst (send_request_with_handshake ''fire'' ''medical'' [(''action'', ''triage'')]
            (Some ''cid-1'') 5 (answered_at (5/2)))
       = Inr [(''status'', ''received'')]
   \<and> fst (send_request_with_handshake ''fire'' ''medical'' [(''action'', ''triage'')]
            (Some ''cid-1'') 5 (quiet (down_for 0)))
       = Inl (Exc ''Agent medical did not respond within 5s'')"
  using handshake_request_response[where w = "answered_at (5/2)" and source = "''fire''"
      and target = "''medical''" and cid = "''cid-1''" and payload = "[(''action'', ''triage'')]"
      and timeout = 5 and pre = "[]" and post = "[]"
      and ?c0.0 = "\<lparr>at_time = 5/2, in_process = False, r_cid = ''cid-1'',
                      r_result = [(''status'', ''received'')]\<rparr>"]
    handshake_request_response[where w = "quiet (down_for 0)" and source = "''fire''"
      and target = "''medical''" and cid = "''cid-1''" and payload = "[(''action'', ''triage'')]"
      and timeout = 5]
  by (simp add: handshake_eval answered_at_def)

text \<open>
  C3. A resolution that is posted before the timeout but after the last poll is lost on
  the database path: with \<open>timeout = 5\<close> the row is read 0, 1, 2, 3 and 4 seconds after
  the wait began and deleted at 5 seconds without being read again, so the result posted at
  4.5 seconds is never returned, and the call raises the timeout exception at 5 seconds.
  The other path of the same function, which awaits the future when there is no database,
  returns that result at 4.5 seconds.
\<close>

theorem handshake_late_resolve_divergence:
  "fst (send_request_with_handshake ''fire'' ''medical'' [(''action'', ''triage'')]
          (Some ''cid-1'') 5 (answered_at (9/2)))
     = Inl (Exc ''Agent medical did not respond within 5s'')
   \<and> clock (snd (send_request_with_handshake ''fire'' ''medical'' [(''action'', ''triage'')]
          (Some ''cid-1'') 5 (answered_at (9/2)))) = 5
   \<and> fst (send_request_with_handshake ''fire'' ''medical'' [(''action'', ''triage'')]
          (Some ''cid-1'') 5
          ((quiet (down_for 0))\<lparr>db_up := False, resolves :=
             [\<lparr>at_time = 9/2, in_process = True, r_cid = ''cid-1'',
               r_result = [(''status'', ''received'')]\<rparr>]\<rparr>))
     = Inr [(''status'', ''received'')]
   \<and> clock (snd (send_request_with_handshake ''fire'' ''medical'' [(''action'', ''triage'')]
          (Some ''cid-1'') 5
          ((quiet (down_for 0))\<lparr>db_up := False, resolves :=
             [\<lparr>at_time = 9/2, in_process = True, r_cid = ''cid-1'',
               r_result = [(''status'', ''received'')]\<rparr>]\<rparr>))) = 9/2"
  by (simp add: handshake_eval answered_at_def)

subsection \<open>Facts about broadcast\<close>













subsection \<open>Facts about rate admission\<close>
















subsection \<open>Facts about the incident id\<close>

lemmas rx_eval = extract_incident_id_def match_label_def match_caps_def is_upper_def
  is_lower_def is_digit_def is_space_def is_word_def is_caps_def is_id_char_def Let_def

lemma extract_incident_id_examples:
  "extract_incident_id ''Incident ID: ABC_123'' = Some ''ABC_123''"
  "extract_incident_id ''for ABC_123_456'' = Some ''ABC_123_456''"
  "extract_incident_id ''Fire at RUSHIKONDA_FIRE_MEDICAL_001 now''
     = Some ''RUSHIKONDA_FIRE_MEDICAL_001''"
  "extract_incident_id ''Incident ID: Fire_1'' = Some ''F''"
  "extract_incident_id ''A_B_C-D'' = Some ''A_B_C''"
  "extract_incident_id ''xABC_1_2 ABC_1_2x A_B_C_ A__B_C'' = None"
  by (simp_all add: rx_eval)

lemma strip_prefix_Some:
  "strip_prefix p s = Some r \<Longrightarrow> s = p @ r"
  by (induction p s rule: strip_prefix.induct) (auto split: if_splits)

lemma strip_prefix_append [simp]: "strip_prefix p (p @ r) = Some r"
  by (induction p) auto

lemma id_char_not_space: "is_id_char c \<Longrightarrow> \<not> is_space c"
  by (auto simp: is_id_char_def is_space_def is_upper_def is_digit_def)

lemma match_label_SomeD:
  assumes "match_label s = Some g"
  shows "\<exists>c ws1 i d p ws2 post.
           s = c # ''ncident'' @ ws1 @ i # d # p # ws2 @ g @ post
         \<and> (c = CHR ''I'' \<or> c = CHR ''i'') \<and> (\<forall>x\<in>set ws1. is_space x)
         \<and> (i = CHR ''I'' \<or> i = CHR ''i'') \<and> (d = CHR ''D'' \<or> d = CHR ''d'')
         \<and> (p = CHR '':'' \<or> p = CHR ''='') \<and> (\<forall>x\<in>set ws2. is_space x)
         \<and> g \<noteq> [] \<and> (\<forall>x\<in>set g. is_id_char x)
         \<and> (post = [] \<or> \<not> is_id_char (hd post))"
proof -
  obtain c r where s: "s = c # r" and c: "c = CHR ''I'' \<or> c = CHR ''i''"
    using assms by (cases s) (auto simp: match_label_def split: if_splits)
  obtain r1 where r1: "strip_prefix ''ncident'' r = Some r1"
    using assms s c by (auto simp: match_label_def split: option.splits)
  have r: "r = ''ncident'' @ r1"
    using strip_prefix_Some[OF r1] .
  obtain i d p r3 where dw: "dropWhile is_space r1 = i # d # p # r3"
    using assms s c r1
    by (auto simp: match_label_def split: list.splits)
  have idp: "(i = CHR ''I'' \<or> i = CHR ''i'') \<and> (d = CHR ''D'' \<or> d = CHR ''d'')
         \<and> (p = CHR '':'' \<or> p = CHR ''='')"
    and g: "g = takeWhile is_id_char (dropWhile is_space r3)" "g \<noteq> []"
    using assms s c r1 dw
    by (auto simp: match_label_def Let_def split: if_splits)
  define ws1 where "ws1 = takeWhile is_space r1"
  define ws2 where "ws2 = takeWhile is_space r3"
  define post where "post = dropWhile is_id_char (dropWhile is_space r3)"
  have "r1 = ws1 @ i # d # p # r3"
    using takeWhile_dropWhile_id[of is_space r1] dw by (simp add: ws1_def)
  moreover have "r3 = ws2 @ g @ post"
    using takeWhile_dropWhile_id[of is_space r3]
      takeWhile_dropWhile_id[of is_id_char "dropWhile is_space r3"]
    by (simp add: ws2_def g(1) post_def)
  ultimately have dec: "s = c # ''ncident'' @ ws1 @ i # d # p # ws2 @ g @ post"
    using s r by simp
  have sp: "\<forall>x\<in>set ws1. is_space x" "\<forall>x\<in>set ws2. is_space x"
    by (auto simp: ws1_def ws2_def dest: set_takeWhileD)
  have idc: "\<forall>x\<in>set g. is_id_char x"
    by (auto simp: g(1) dest: set_takeWhileD)
  have pst: "post = [] \<or> \<not> is_id_char (hd post)"
    using hd_dropWhile[of is_id_char "dropWhile is_space r3"] by (auto simp: post_def)
  show ?thesis
    using dec c sp idp g(2) idc pst by blast
qed

lemma match_label_labelled:
  assumes "c = CHR ''I'' \<or> c = CHR ''i''" and "\<forall>x\<in>set ws1. is_space x"
    and "i = CHR ''I'' \<or> i = CHR ''i''" and "d = CHR ''D'' \<or> d = CHR ''d''"
    and "p = CHR '':'' \<or> p = CHR ''=''" and "\<forall>x\<in>set ws2. is_space x"
    and "g \<noteq> []" and "\<forall>x\<in>set g. is_id_char x"
    and "post = [] \<or> \<not> is_id_char (hd post)"
  shows "match_label (c # ''ncident'' @ ws1 @ i # d # p # ws2 @ g @ post) = Some g"
proof -
  have ni: "\<not> is_space i"
    using assms(3) by (auto simp: is_space_def)
  have d1: "dropWhile is_space (ws1 @ i # d # p # ws2 @ g @ post) = i # d # p # ws2 @ g @ post"
    using assms(2) ni by (simp add: dropWhile_append3)
  obtain g0 gs where gg: "g = g0 # gs"
    using assms(7) by (cases g) auto
  have ng: "\<not> is_space g0"
    using assms(8) gg id_char_not_space by auto
  have d2: "dropWhile is_space (ws2 @ g @ post) = g @ post"
    using assms(6) ng gg by (simp add: dropWhile_append3)
  have t: "takeWhile is_id_char (g @ post) = g"
    using assms(8,9) by (cases post) (auto simp: takeWhile_append2 takeWhile_eq_all_conv)
  have "strip_prefix ''ncident'' (''ncident'' @ ws1 @ i # d # p # ws2 @ g @ post)
          = Some (ws1 @ i # d # p # ws2 @ g @ post)"
    by (rule strip_prefix_append)
  then show ?thesis
    using assms(1,3,4,5,7) d1 d2 t
    by (simp add: match_label_def Let_def)
qed

lemma search_label_SomeD:
  "search_label body = Some g \<Longrightarrow> \<exists>pre s. body = pre @ s \<and> match_label s = Some g"
proof (induction body)
  case Nil
  then show ?case by simp
next
  case (Cons c cs)
  show ?case
  proof (cases "match_label (c # cs)")
    case (Some g')
    then have "g' = g" using Cons.prems by simp
    then have "c # cs = [] @ (c # cs) \<and> match_label (c # cs) = Some g"
      using Some by simp
    then show ?thesis by blast
  next
    case None
    then obtain pre s where "cs = pre @ s" "match_label s = Some g"
      using Cons by auto
    then have "c # cs = (c # pre) @ s \<and> match_label s = Some g"
      by simp
    then show ?thesis by blast
  qed
qed

lemma parse_groups_shape:
  "parse_groups s = (groups, rest) \<Longrightarrow>
     s = concat groups @ rest
     \<and> (\<forall>gr\<in>set groups. \<exists>seg. gr = CHR ''_'' # seg \<and> seg \<noteq> [] \<and> (\<forall>x\<in>set seg. is_caps x))"
proof (induction s arbitrary: groups rest rule: parse_groups.induct)
  case 1
  then show ?case by simp
next
  case (2 u cs)
  show ?case
  proof (cases "u = CHR ''_'' \<and> takeWhile is_caps cs \<noteq> []")
    case False
    then show ?thesis using "2.prems" by auto
  next
    case True
    obtain gs r where rec: "parse_groups (dropWhile is_caps cs) = (gs, r)"
      by (cases "parse_groups (dropWhile is_caps cs)")
    have res: "groups = (u # takeWhile is_caps cs) # gs" "rest = r"
      using "2.prems" True rec by auto
    have ih: "dropWhile is_caps cs = concat gs @ r
       \<and> (\<forall>gr\<in>set gs. \<exists>seg. gr = CHR ''_'' # seg \<and> seg \<noteq> [] \<and> (\<forall>x\<in>set seg. is_caps x))"
      using "2.IH"[OF True rec] .
    have "u # cs = concat groups @ rest"
      using ih takeWhile_dropWhile_id[of is_caps cs] res
      by (metis append.assoc append_Cons concat.simps(2))
    moreover have "\<exists>seg. u # takeWhile is_caps cs = CHR ''_'' # seg \<and> seg \<noteq> []
        \<and> (\<forall>x\<in>set seg. is_caps x)"
      using True by (auto dest: set_takeWhileD)
    ultimately show ?thesis
      using ih res by auto
  qed
qed

lemma match_caps_SomeD:
  assumes "match_caps prev s = Some g"
  shows "\<exists>c seg0 groups rest.
           s = g @ rest \<and> g = c # seg0 @ concat groups
         \<and> is_upper c \<and> (\<forall>x\<in>set seg0. is_caps x) \<and> 2 \<le> length groups
         \<and> (\<forall>gr\<in>set groups. \<exists>seg. gr = CHR ''_'' # seg \<and> seg \<noteq> []
                \<and> (\<forall>x\<in>set seg. is_caps x))
         \<and> (rest = [] \<or> \<not> is_word (hd rest))
         \<and> (case prev of None \<Rightarrow> True | Some b \<Rightarrow> \<not> is_word b)"
proof -
  obtain c r where s: "s = c # r"
    and st: "(case prev of None \<Rightarrow> True | Some b \<Rightarrow> \<not> is_word b)" "is_upper c"
    using assms by (cases s) (auto simp: match_caps_def split: if_splits)
  obtain groups rest where pg: "parse_groups (dropWhile is_caps r) = (groups, rest)"
    by (cases "parse_groups (dropWhile is_caps r)")
  have ok: "2 \<le> length groups" "rest = [] \<or> \<not> is_word (hd rest)"
    and g: "g = c # takeWhile is_caps r @ concat groups"
    using assms s st pg by (auto simp: match_caps_def split: if_splits list.splits)
  have sh: "dropWhile is_caps r = concat groups @ rest"
    "\<forall>gr\<in>set groups. \<exists>seg. gr = CHR ''_'' # seg \<and> seg \<noteq> [] \<and> (\<forall>x\<in>set seg. is_caps x)"
    using parse_groups_shape[OF pg] by auto
  have "s = g @ rest"
    using s g sh(1) takeWhile_dropWhile_id[of is_caps r] by (metis append.assoc append_Cons)
  moreover have "\<forall>x\<in>set (takeWhile is_caps r). is_caps x"
    by (auto dest: set_takeWhileD)
  ultimately show ?thesis
    using g st ok sh(2) by blast
qed

lemma search_caps_SomeD:
  "search_caps prev body = Some g \<Longrightarrow>
     \<exists>pre s prev'. body = pre @ s \<and> match_caps prev' s = Some g
       \<and> prev' = (if pre = [] then prev else Some (last pre))"
proof (induction body arbitrary: prev)
  case Nil
  then show ?case by simp
next
  case (Cons c cs)
  show ?case
  proof (cases "match_caps prev (c # cs)")
    case (Some g')
    then have "g' = g" using Cons.prems by simp
    then have "c # cs = [] @ (c # cs) \<and> match_caps prev (c # cs) = Some g
        \<and> prev = (if ([]::string) = [] then prev else Some (last []))"
      using Some by simp
    then show ?thesis by blast
  next
    case None
    then have "search_caps (Some c) cs = Some g" using Cons.prems by simp
    then obtain pre s prev' where "cs = pre @ s" "match_caps prev' s = Some g"
      "prev' = (if pre = [] then Some c else Some (last pre))"
      using Cons.IH by blast
    then have "c # cs = (c # pre) @ s \<and> match_caps prev' s = Some g
        \<and> prev' = (if c # pre = [] then prev else Some (last (c # pre)))"
      by auto
    then show ?thesis by blast
  qed
qed

end
